theory Spec2Isabelle
  imports Main
begin

section \<open>Data model of web/js/RES4LYF_dynamicWidgets.js\<close>

text \<open>
  The extension decides which widgets of a node of the graph editor are visible.
  Its state is four module-level variables and, per node, the widgets, the inputs, the
  size and the hook slots of the node object. Every function of the source that mutates
  this state is modelled as a function from the state to the new state.

  Conventions of the embedding:
  \<^item> a JavaScript property that may be \<^verbatim>\<open>undefined\<close> is an \<open>option\<close> (\<open>None\<close> is
    \<^verbatim>\<open>undefined\<close>, also after \<^verbatim>\<open>delete\<close>);
  \<^item> a widget object is referred to by its position in \<^verbatim>\<open>node.widgets\<close>; the result of
    \<^verbatim>\<open>node.widgets.find(...)\<close> is a position or \<open>None\<close>;
  \<^item> \<^verbatim>\<open>node.widgets\<close> and \<^verbatim>\<open>node.inputs\<close> are arrays (lists) on every node the extension
    handles;
  \<^item> sizes are JavaScript numbers; only their order and \<^verbatim>\<open>Math.max\<close> matter here, and they
    are modelled as integers;
  \<^item> the host's \<^verbatim>\<open>node.computeSize()\<close> is not part of the repository: it is a parameter
    of every function that calls it, and \<^verbatim>\<open>node.setSize(s)\<close> stores \<open>s\<close> as the node's size;
  \<^item> the object \<^verbatim>\<open>origProps\<close> is used as a dictionary from widget names to entries. The
    extension only ever passes to \<^verbatim>\<open>toggleWidget\<close> widgets it found under the names of its
    own tables, none of which is a property that every JavaScript object inherits, so a
    lookup finds an entry exactly when the extension has stored one.
\<close>

datatype jsval = JUndefined | JBool bool | JNum int | JStr string

text \<open>A widget's \<^verbatim>\<open>computeSize\<close>: a function the host gave it (named by a tag), or the
  arrow function \<^verbatim>\<open>() => [0, -4]\<close> that \<^verbatim>\<open>toggleWidget\<close> installs.\<close>

datatype size_fn = HostSizeFn nat | HiddenSizeFn

fun callSizeFn :: "(nat \<Rightarrow> int \<Rightarrow> int \<times> int) \<Rightarrow> size_fn \<Rightarrow> int \<Rightarrow> int \<times> int" where
  "callSizeFn host (HostSizeFn k) width = host k width"
| "callSizeFn host HiddenSizeFn width = (0, - 4)"

record dependent_group =
  inputWidgetNames :: "string list"
  independentValues :: "jsval list"
  widgetsToShow :: "string list"

record optional_group =
  inputs :: "string list"
  widgets :: "string list"

record node_config =
  optionalInputWidgets :: "optional_group list option"
  dependentWidgets :: "dependent_group list option"

text \<open>A widget's \<^verbatim>\<open>callback\<close>: the host's, or the handler \<^verbatim>\<open>onNodeChange\<close> that
  \<^verbatim>\<open>setupDynamicWidgets\<close> installs (a closure over its \<^verbatim>\<open>dependentWidgetsConfig\<close>).\<close>

datatype callback = HostCallback nat | OnNodeChangeCallback "dependent_group list option"

record widget =
  w_name :: string
  w_value :: jsval
  w_type :: string
  w_computeSize :: "size_fn option"
  w_computedHeight :: "int option"
  w_RES4LYF_hidden :: "bool option"
  w_callback :: "callback option"

datatype link = LinkNull | LinkUndefined | LinkId int

record input =
  i_name :: string
  i_link :: link

text \<open>Hook slots of a node. A slot holds nothing (\<^verbatim>\<open>undefined\<close>), a handler of the host or
  of another extension (named by a tag), or a function this extension installed; such a
  function is a closure over the handler it found in the slot.\<close>

datatype conn_hook =
    ConnUndefined
  | ConnHost nat
  | ConnWrapper conn_hook "dependent_group list option"

datatype menu_hook =
    MenuUndefined
  | MenuHost nat
  | MenuWrapper menu_hook "dependent_group list option"

datatype configure_hook =
    ConfigureUndefined
  | ConfigureHost nat
  | ConfigureWrapper configure_hook "dependent_group list option"

datatype graph_hook =
    GraphUndefined
  | GraphHost nat
  | GraphHandler "dependent_group list option"

record node =
  n_id :: string
  n_comfyClass :: string
  n_widgets :: "widget list"
  n_inputs :: "input list"
  n_size :: "int \<times> int"
  n_graph :: bool
  n_onConnectionsChange :: conn_hook
  n_getExtraMenuOptions :: menu_hook
  n_RES4LYF_menuWrapped :: bool
  n_onConfigure :: configure_hook
  n_onAfterGraphConfigured :: graph_hook

record orig =
  origType :: string
  origComputeSize :: "size_fn option"

text \<open>The module-level variables: \<^verbatim>\<open>ENABLE_WIDGET_HIDING\<close>, \<^verbatim>\<open>DEFAULT_WIDGET_STATES\<close>,
  \<^verbatim>\<open>widgetToggleStates\<close> (keyed by the string \<^verbatim>\<open>`${node.id}_${widgetName}`\<close>) and
  \<^verbatim>\<open>origProps\<close> (keyed by the widget's name).\<close>

record globals =
  ENABLE_WIDGET_HIDING :: bool
  DEFAULT_WIDGET_STATES :: "string \<rightharpoonup> bool"
  widgetToggleStates :: "string \<rightharpoonup> bool"
  origProps :: "string \<rightharpoonup> orig"

type_synonym computeSize = "node \<Rightarrow> int \<times> int"

definition HIDDEN_TAG :: string where
  "HIDDEN_TAG = ''RES4LYF_hidden''"

section \<open>The rule registry\<close>

definition commonDependentWidgets :: "dependent_group list" where
  "commonDependentWidgets =
    [ \<lparr> inputWidgetNames = [''noise_type'', ''noise_sampler_type''],
        independentValues = [JStr ''fractal''],
        widgetsToShow = [''alpha'', ''k''] \<rparr>,
      \<lparr> inputWidgetNames = [''rk_type'', ''sampler_name''],
        independentValues = map JStr
          [ ''dormand-prince_6s'', ''dormand-prince_7s'', ''dormand-prince_13s'',
            ''bogacki-shampine_7s'', ''rk_exp_5s'', ''rk4_4s'', ''rk38_4s'', ''ralston_4s'',
            ''dpmpp_3s'', ''heun_3s'', ''houwen-wray_3s'', ''kutta_3s'', ''ralston_3s'',
            ''res_3s'', ''ssprk3_3s'', ''dpmpp_2s'', ''dpmpp_sde_2s'', ''heun_2s'',
            ''ralston_2s'', ''res_2s'' ],
        widgetsToShow = [''multistep''] \<rparr> ]"

definition nodesWithCommonConfig :: "string list" where
  "nodesWithCommonConfig =
    [ ''AdvancedNoise'', ''Legacy_ClownSampler'', ''ClownSampler'', ''ClownsharKSampler'',
      ''KSamplerSelectAdvanced'', ''LatentNoised'', ''SamplerCorona'', ''SamplerDEIS_SDE'',
      ''SamplerDPMPP_2M_SDE_Advanced'', ''SamplerDPMPP_2S_Ancestral_Advanced'',
      ''SamplerDPMPP_3M_SDE_Advanced'', ''SamplerDPMPP_DualSDE_Advanced'',
      ''SamplerDPMPP_SDE_Advanced'', ''SamplerDPMPP_SDE_CFG++_Advanced'',
      ''SamplerEulerAncestral_Advanced'', ''SamplerNoiseInversion'', ''SamplerRES_Implicit'',
      ''SamplerRES3_Implicit_Automation'', ''SamplerRK'', ''SamplerRK_Test'', ''SharkSampler'',
      ''UltraSharkSampler'', ''UltraSharkSampler Tiled'' ]"

definition createNodeConfig :: "string \<Rightarrow> node_config \<Rightarrow> node_config" where
  "createNodeConfig nodeName uniqueConfig =
    (if nodeName \<in> set nodesWithCommonConfig
     then uniqueConfig \<lparr> dependentWidgets := Some commonDependentWidgets \<rparr>
     else uniqueConfig)"

definition emptyConfig :: node_config where
  "emptyConfig = \<lparr> optionalInputWidgets = None, dependentWidgets = None \<rparr>"

definition guideGroup :: optional_group where
  "guideGroup = \<lparr> inputs = [''latent_guide'', ''latent_guide_inv''],
                  widgets = [''latent_guide_weight'', ''guide_mode''] \<rparr>"

definition maskGroup :: optional_group where
  "maskGroup = \<lparr> inputs = [''latent_guide_mask''], widgets = [''rescale_floor''] \<rparr>"

text \<open>\<^verbatim>\<open>nodeConfigs\<close> after the module has loaded: the three entries with optional-input
  groups, then one entry for every other name of \<^verbatim>\<open>nodesWithCommonConfig\<close>.\<close>

definition nodeConfigs :: "string \<rightharpoonup> node_config" where
  "nodeConfigs comfyClass =
    (if comfyClass = ''ClownSampler'' then
       Some (createNodeConfig ''ClownSampler''
              (emptyConfig \<lparr> optionalInputWidgets := Some [guideGroup, maskGroup] \<rparr>))
     else if comfyClass = ''Legacy_ClownSampler'' then
       Some (createNodeConfig ''Legacy_ClownSampler''
              (emptyConfig \<lparr> optionalInputWidgets := Some [guideGroup, maskGroup] \<rparr>))
     else if comfyClass = ''SamplerRK'' then
       Some (createNodeConfig ''SamplerRK''
              (emptyConfig \<lparr> optionalInputWidgets := Some [guideGroup] \<rparr>))
     else if comfyClass \<in> set nodesWithCommonConfig then
       Some (createNodeConfig comfyClass emptyConfig)
     else None)"

definition TOGGLEABLE_WIDGETS :: "string list" where
  "TOGGLEABLE_WIDGETS = [''extra_options'', ''truncate_conditioning'']"

section \<open>The toggle engine\<close>

text \<open>\<^verbatim>\<open>node.widgets.find(w => w.name === widgetName)\<close>: the position of the first widget
  with that name.\<close>

primrec findIndex :: "('a \<Rightarrow> bool) \<Rightarrow> 'a list \<Rightarrow> nat option" where
  "findIndex P [] = None"
| "findIndex P (x # xs) = (if P x then Some 0 else map_option Suc (findIndex P xs))"

definition findWidget :: "node \<Rightarrow> string \<Rightarrow> nat option" where
  "findWidget node widgetName = findIndex (\<lambda>w. w_name w = widgetName) (n_widgets node)"

definition findInput :: "node \<Rightarrow> string \<Rightarrow> nat option" where
  "findInput node inputName = findIndex (\<lambda>i. i_name i = inputName) (n_inputs node)"

text \<open>\<^verbatim>\<open>toggleWidget(node, widget, shouldShow)\<close>, lines 174 to 204. The argument \<open>widget\<close>
  is \<open>None\<close> for \<^verbatim>\<open>undefined\<close> and \<open>Some i\<close> for \<^verbatim>\<open>node.widgets[i]\<close>. Lines 189 to 191
  read \<^verbatim>\<open>origProps[widget.name]\<close> after lines 179 to 184 have made sure that it is
  there, so \<open>the\<close> below is only ever applied to a stored entry.\<close>

definition toggleWidget ::
  "computeSize \<Rightarrow> globals \<Rightarrow> node \<Rightarrow> nat option \<Rightarrow> bool \<Rightarrow> globals \<times> node" where
  "toggleWidget computeSize g node widget shouldShow =
    (case widget of
       None \<Rightarrow> (g, node)
     | Some i \<Rightarrow>
        if length (n_widgets node) \<le> i then (g, node)
        else
          let w = n_widgets node ! i;
              g1 = (if origProps g (w_name w) = None
                    then g \<lparr> origProps := (origProps g)
                             (w_name w \<mapsto> \<lparr> origType = w_type w,
                                            origComputeSize = w_computeSize w \<rparr>) \<rparr>
                    else g);
              origSize = n_size node;
              restore = (shouldShow \<or> \<not> ENABLE_WIDGET_HIDING g1);
              w1 = w \<lparr> w_RES4LYF_hidden := Some (\<not> shouldShow) \<rparr>;
              w2 = w1 \<lparr> w_type := (if restore then origType (the (origProps g1 (w_name w1)))
                                   else HIDDEN_TAG) \<rparr>;
              w3 = w2 \<lparr> w_computeSize :=
                        (if restore then origComputeSize (the (origProps g1 (w_name w2)))
                         else Some HiddenSizeFn) \<rparr>;
              w4 = w3 \<lparr> w_computedHeight := (if restore then None else Some 0) \<rparr>;
              node1 = node \<lparr> n_widgets := (n_widgets node)[i := w4] \<rparr>;
              newSize = computeSize node1;
              height = (if restore then max (snd newSize) (snd origSize) else snd newSize)
          in (g1, node1 \<lparr> n_size := (fst (n_size node1), height) \<rparr>))"

text \<open>The entry \<^verbatim>\<open>origProps[widget.name]\<close> that a call of \<^verbatim>\<open>toggleWidget\<close> on the
  widget reads after lines 179 to 184: the stored one, or the one captured from the
  widget when none was stored.\<close>

definition origEntry :: "globals \<Rightarrow> widget \<Rightarrow> orig" where
  "origEntry g w =
    (case origProps g (w_name w) of
       Some e \<Rightarrow> e
     | None \<Rightarrow> \<lparr> origType = w_type w, origComputeSize = w_computeSize w \<rparr>)"

section \<open>The visibility resolver\<close>

text \<open>The string \<^verbatim>\<open>`${node.id}_${widgetName}`\<close>; \<open>n_id\<close> is the node's id as printed.\<close>

definition stateKey :: "node \<Rightarrow> string \<Rightarrow> string" where
  "stateKey node widgetName = n_id node @ ''_'' @ widgetName"

text \<open>Lines 220 to 223: \<^verbatim>\<open>inputWidgetNames.some(...)\<close>.\<close>

definition showWidgets :: "node \<Rightarrow> dependent_group \<Rightarrow> bool" where
  "showWidgets node grp =
    list_ex (\<lambda>widgetName.
        case findWidget node widgetName of
          None \<Rightarrow> False
        | Some i \<Rightarrow> w_value (n_widgets node ! i) \<in> set (independentValues grp))
      (inputWidgetNames grp)"

text \<open>Lines 225 to 228, the body of \<^verbatim>\<open>widgetsToShow.forEach\<close>: the widget found (or
  \<^verbatim>\<open>undefined\<close>) goes to \<^verbatim>\<open>toggleWidget\<close>.\<close>

definition toggleTarget ::
  "computeSize \<Rightarrow> bool \<Rightarrow> globals \<times> node \<Rightarrow> string \<Rightarrow> globals \<times> node" where
  "toggleTarget computeSize shouldShow st widgetName =
    toggleWidget computeSize (fst st) (snd st) (findWidget (snd st) widgetName) shouldShow"

text \<open>Lines 217 to 229, the body of \<^verbatim>\<open>groups.forEach\<close>.\<close>

definition handleGroup ::
  "computeSize \<Rightarrow> globals \<times> node \<Rightarrow> dependent_group \<Rightarrow> globals \<times> node" where
  "handleGroup computeSize st grp =
    foldl (toggleTarget computeSize (showWidgets (snd st) grp)) st (widgetsToShow grp)"

text \<open>The handler that \<^verbatim>\<open>createGenericHandler(node, dependentWidgetsConfig)\<close> returns, as
  a function of the state it runs in.\<close>

definition createGenericHandler ::
  "computeSize \<Rightarrow> dependent_group list option \<Rightarrow> globals \<times> node \<Rightarrow> globals \<times> node" where
  "createGenericHandler computeSize dependentWidgetsConfig st =
    (case dependentWidgetsConfig of
       None \<Rightarrow> st
     | Some groups \<Rightarrow> foldl (handleGroup computeSize) st groups)"

text \<open>Lines 282 to 285 and 348 to 351: \<^verbatim>\<open>group.inputs.some(...)\<close>.\<close>

definition isAnyConnected :: "node \<Rightarrow> optional_group \<Rightarrow> bool" where
  "isAnyConnected node grp =
    list_ex (\<lambda>inputName.
        case findInput node inputName of
          None \<Rightarrow> False
        | Some j \<Rightarrow> i_link (n_inputs node ! j) \<noteq> LinkNull)
      (inputs grp)"

text \<open>Lines 288 to 293 and 354 to 359, the body of \<^verbatim>\<open>group.widgets.forEach\<close>.\<close>

definition toggleFound ::
  "computeSize \<Rightarrow> bool \<Rightarrow> globals \<times> node \<Rightarrow> string \<Rightarrow> globals \<times> node" where
  "toggleFound computeSize shouldShow st widgetName =
    (case findWidget (snd st) widgetName of
       None \<Rightarrow> st
     | Some i \<Rightarrow> toggleWidget computeSize (fst st) (snd st) (Some i) shouldShow)"

definition connectionGroup ::
  "computeSize \<Rightarrow> string \<Rightarrow> globals \<times> node \<Rightarrow> optional_group \<Rightarrow> globals \<times> node" where
  "connectionGroup computeSize inputName st grp =
    (if inputName \<in> set (inputs grp)
     then foldl (toggleFound computeSize (isAnyConnected (snd st) grp)) st (widgets grp)
     else st)"

text \<open>\<^verbatim>\<open>handleConnectionChange(type, index, connected, link_info)\<close>, lines 270 to 296; only
  \<open>index\<close> is read. An index outside \<^verbatim>\<open>node.inputs\<close> and an empty name both make
  \<^verbatim>\<open>inputName\<close> falsy.\<close>

definition handleConnectionChange ::
  "computeSize \<Rightarrow> nat \<Rightarrow> globals \<times> node \<Rightarrow> globals \<times> node" where
  "handleConnectionChange computeSize index st =
    (case nodeConfigs (n_comfyClass (snd st)) of
       None \<Rightarrow> st
     | Some config \<Rightarrow>
        (case optionalInputWidgets config of
           None \<Rightarrow> st
         | Some groups \<Rightarrow>
            if length (n_inputs (snd st)) \<le> index then st
            else
              let inputName = i_name (n_inputs (snd st) ! index)
              in if inputName = [] then st
                 else foldl (connectionGroup computeSize inputName) st groups))"

section \<open>Setting up a node\<close>

text \<open>Lines 243 to 253, the body of the loop over the toggleable widget names;
  \<^verbatim>\<open>!defaultHidden\<close> is true when no default is stored.\<close>

definition applyDefault ::
  "computeSize \<Rightarrow> globals \<times> node \<Rightarrow> string \<Rightarrow> globals \<times> node" where
  "applyDefault computeSize st widgetName =
    (case findWidget (snd st) widgetName of
       None \<Rightarrow> st
     | Some i \<Rightarrow>
        if widgetToggleStates (fst st) (stateKey (snd st) widgetName) = None
        then toggleWidget computeSize (fst st) (snd st) (Some i)
               (case DEFAULT_WIDGET_STATES (fst st) widgetName of
                  None \<Rightarrow> True
                | Some defaultHidden \<Rightarrow> \<not> defaultHidden)
        else st)"

text \<open>Lines 260 to 265: the controlling widget's \<^verbatim>\<open>callback\<close> becomes the handler.\<close>

definition setCallback :: "dependent_group list option \<Rightarrow> node \<Rightarrow> string \<Rightarrow> node" where
  "setCallback dependentWidgetsConfig node widgetName =
    (case findWidget node widgetName of
       None \<Rightarrow> node
     | Some i \<Rightarrow>
        node \<lparr> n_widgets := (n_widgets node)
          [i := (n_widgets node ! i)
                  \<lparr> w_callback := Some (OnNodeChangeCallback dependentWidgetsConfig) \<rparr>] \<rparr>)"

definition setCallbacks :: "dependent_group list option \<Rightarrow> node \<Rightarrow> node" where
  "setCallbacks dependentWidgetsConfig node =
    (case dependentWidgetsConfig of
       None \<Rightarrow> node
     | Some groups \<Rightarrow>
        foldl (\<lambda>node1 grp. foldl (setCallback dependentWidgetsConfig) node1 (inputWidgetNames grp))
          node groups)"

text \<open>Lines 346 to 360, the body of the loop that initialises the optional-input groups.\<close>

definition initGroup ::
  "computeSize \<Rightarrow> globals \<times> node \<Rightarrow> optional_group \<Rightarrow> globals \<times> node" where
  "initGroup computeSize st grp =
    foldl (toggleFound computeSize (isAnyConnected (snd st) grp)) st (widgets grp)"

text \<open>Lines 299 to 341: the connection hook is wrapped on every call, the menu hook
  only while the node does not carry the flag \<^verbatim>\<open>_RES4LYF_menuWrapped\<close>.\<close>

definition wrapHooks :: "dependent_group list option \<Rightarrow> node \<Rightarrow> node" where
  "wrapHooks dependentWidgetsConfig node =
    (let node1 = node \<lparr> n_onConnectionsChange :=
                   ConnWrapper (n_onConnectionsChange node) dependentWidgetsConfig \<rparr>
     in if n_RES4LYF_menuWrapped node1 then node1
        else node1 \<lparr> n_getExtraMenuOptions :=
                       MenuWrapper (n_getExtraMenuOptions node1) dependentWidgetsConfig,
                     n_RES4LYF_menuWrapped := True \<rparr>)"

text \<open>Lines 344 to 361.\<close>

definition initOptionalInputs :: "computeSize \<Rightarrow> globals \<times> node \<Rightarrow> globals \<times> node" where
  "initOptionalInputs computeSize st =
    (case nodeConfigs (n_comfyClass (snd st)) of
       None \<Rightarrow> st
     | Some config \<Rightarrow>
        (case optionalInputWidgets config of
           None \<Rightarrow> st
         | Some groups \<Rightarrow> foldl (initGroup computeSize) st groups))"

text \<open>\<^verbatim>\<open>setupDynamicWidgets(node, dependentWidgetsConfig)\<close>, lines 239 to 362.\<close>

definition setupDynamicWidgets ::
  "computeSize \<Rightarrow> dependent_group list option \<Rightarrow> globals \<times> node \<Rightarrow> globals \<times> node" where
  "setupDynamicWidgets computeSize dependentWidgetsConfig st =
    (let st1 = foldl (applyDefault computeSize) st TOGGLEABLE_WIDGETS;
         st2 = createGenericHandler computeSize dependentWidgetsConfig st1;
         node3 = setCallbacks dependentWidgetsConfig (snd st2);
         node4 = wrapHooks dependentWidgetsConfig node3
     in initOptionalInputs computeSize (fst st2, node4))"

text \<open>\<^verbatim>\<open>nodeCreated(node)\<close>, lines 480 to 512.\<close>

definition nodeCreated :: "computeSize \<Rightarrow> globals \<times> node \<Rightarrow> globals \<times> node" where
  "nodeCreated computeSize st =
    (case nodeConfigs (n_comfyClass (snd st)) of
       None \<Rightarrow> st
     | Some config \<Rightarrow>
        let st1 = setupDynamicWidgets computeSize (dependentWidgets config) st;
            st2 = createGenericHandler computeSize (dependentWidgets config) st1;
            node3 = (snd st2) \<lparr> n_onConfigure :=
                      ConfigureWrapper (n_onConfigure (snd st2)) (dependentWidgets config) \<rparr>;
            node4 = node3 \<lparr> n_onAfterGraphConfigured := GraphHandler (dependentWidgets config) \<rparr>
        in (fst st2, node4))"

section \<open>What the installed hooks do when the host calls them\<close>

text \<open>Each function below runs the handler found in a hook slot; it returns the new
  state and the handlers that ran, in order. A handler of the host is opaque: it is
  recorded as called, and its own effect on the node is outside this model.\<close>

datatype call =
    HostHandler nat
  | HandleConnectionChange
  | OnNodeChange
  | AddMenuOptions
  | SetupDynamicWidgets
  | RefreshOnNextFrame

text \<open>Lines 300 to 306.\<close>

fun onConnectionsChange ::
  "computeSize \<Rightarrow> conn_hook \<Rightarrow> nat \<Rightarrow> globals \<times> node \<Rightarrow> (globals \<times> node) \<times> call list" where
  "onConnectionsChange computeSize ConnUndefined index st = (st, [])"
| "onConnectionsChange computeSize (ConnHost k) index st = (st, [HostHandler k])"
| "onConnectionsChange computeSize (ConnWrapper origOnConnectionsChange cfg) index st =
    (let r1 = (if origOnConnectionsChange = ConnUndefined then (st, [])
               else onConnectionsChange computeSize origOnConnectionsChange index st);
         st2 = handleConnectionChange computeSize index (fst r1);
         st3 = createGenericHandler computeSize cfg st2
     in (st3, snd r1 @ [HandleConnectionChange, OnNodeChange]))"

text \<open>Lines 496 to 500.\<close>

fun onConfigure ::
  "computeSize \<Rightarrow> configure_hook \<Rightarrow> globals \<times> node \<Rightarrow> (globals \<times> node) \<times> call list" where
  "onConfigure computeSize ConfigureUndefined st = (st, [])"
| "onConfigure computeSize (ConfigureHost k) st = (st, [HostHandler k])"
| "onConfigure computeSize (ConfigureWrapper orig cfg) st =
    (let r1 = (if orig = ConfigureUndefined then (st, [])
               else onConfigure computeSize orig st)
     in (setupDynamicWidgets computeSize cfg (fst r1), snd r1 @ [SetupDynamicWidgets]))"

text \<open>Lines 503 to 510. The frame callback is run at once; it refreshes only a node
  that is still in a graph.\<close>

fun onAfterGraphConfigured ::
  "computeSize \<Rightarrow> graph_hook \<Rightarrow> globals \<times> node \<Rightarrow> (globals \<times> node) \<times> call list" where
  "onAfterGraphConfigured computeSize GraphUndefined st = (st, [])"
| "onAfterGraphConfigured computeSize (GraphHost k) st = (st, [HostHandler k])"
| "onAfterGraphConfigured computeSize (GraphHandler cfg) st =
    ((if n_graph (snd st) then createGenericHandler computeSize cfg st else st),
     [RefreshOnNextFrame])"

text \<open>The context menu, lines 311 to 339. An entry is the host's, or a label with the
  callback this extension gave it: the refresh handler, or the closure of lines 330 to
  335 over \<^verbatim>\<open>stateKey\<close>, the widget and \<^verbatim>\<open>isHidden\<close>.\<close>

datatype menu_callback =
    RefreshCallback "dependent_group list option"
  | ToggleCallback string nat "bool option"

datatype menu_option = HostOptions nat | MenuOption string menu_callback

definition addToggleOption ::
  "globals \<Rightarrow> node \<Rightarrow> menu_option list \<Rightarrow> string \<Rightarrow> menu_option list" where
  "addToggleOption g node options widgetName =
    (case findWidget node widgetName of
       None \<Rightarrow> options
     | Some i \<Rightarrow>
        let key = stateKey node widgetName;
            isHidden = (case widgetToggleStates g key of
                          Some b \<Rightarrow> Some b
                        | None \<Rightarrow> DEFAULT_WIDGET_STATES g widgetName)
        in options @
           [MenuOption ((if isHidden = Some True then ''Show'' else ''Hide'') @ '' '' @ widgetName)
              (ToggleCallback key i isHidden)])"

fun getExtraMenuOptions ::
  "globals \<Rightarrow> node \<Rightarrow> menu_hook \<Rightarrow> menu_option list \<Rightarrow> menu_option list \<times> call list" where
  "getExtraMenuOptions g node MenuUndefined options = (options, [])"
| "getExtraMenuOptions g node (MenuHost k) options = (options @ [HostOptions k], [HostHandler k])"
| "getExtraMenuOptions g node (MenuWrapper originalGetExtraMenuOptions cfg) options =
    (let r1 = (if originalGetExtraMenuOptions = MenuUndefined then (options, [])
               else getExtraMenuOptions g node originalGetExtraMenuOptions options);
         options2 = fst r1 @ [MenuOption ''Refresh RES4LYF widgets'' (RefreshCallback cfg)]
     in (foldl (addToggleOption g node) options2 TOGGLEABLE_WIDGETS,
         snd r1 @ [AddMenuOptions]))"

fun menuCallback :: "computeSize \<Rightarrow> menu_callback \<Rightarrow> globals \<times> node \<Rightarrow> globals \<times> node" where
  "menuCallback computeSize (RefreshCallback cfg) st = createGenericHandler computeSize cfg st"
| "menuCallback computeSize (ToggleCallback key i isHidden) st =
    (let newState = (isHidden \<noteq> Some True);
         g1 = (fst st) \<lparr> widgetToggleStates := (widgetToggleStates (fst st))(key \<mapsto> newState) \<rparr>
     in toggleWidget computeSize g1 (snd st) (Some i) (\<not> newState))"

text \<open>A widget's \<^verbatim>\<open>callback\<close>, called by the host after the widget's value changed.\<close>

definition widgetCallback ::
  "computeSize \<Rightarrow> nat \<Rightarrow> globals \<times> node \<Rightarrow> globals \<times> node" where
  "widgetCallback computeSize i st =
    (if length (n_widgets (snd st)) \<le> i then st
     else case w_callback (n_widgets (snd st) ! i) of
            Some (OnNodeChangeCallback cfg) \<Rightarrow> createGenericHandler computeSize cfg st
          | _ \<Rightarrow> st)"

section \<open>The settings' change handlers\<close>

text \<open>\<^verbatim>\<open>for (const node of app.graph._nodes)\<close>: the body runs on each node in turn and
  shares the module's variables.\<close>

fun forNodes ::
  "(globals \<times> node \<Rightarrow> globals \<times> node) \<Rightarrow> globals \<Rightarrow> node list \<Rightarrow> globals \<times> node list" where
  "forNodes body g [] = (g, [])"
| "forNodes body g (node # nodes) =
    (let r = body (g, node);
         rs = forNodes body (fst r) nodes
     in (fst rs, snd r # snd rs))"

text \<open>Lines 377 to 394: \<^verbatim>\<open>onChange\<close> of a "hide by default" setting.\<close>

definition defaultHideNode ::
  "computeSize \<Rightarrow> string \<Rightarrow> bool \<Rightarrow> globals \<times> node \<Rightarrow> globals \<times> node" where
  "defaultHideNode computeSize widgetName v st =
    (if nodeConfigs (n_comfyClass (snd st)) = None then st
     else case findWidget (snd st) widgetName of
            None \<Rightarrow> st
          | Some i \<Rightarrow>
             if widgetToggleStates (fst st) (stateKey (snd st) widgetName) = None
             then toggleWidget computeSize (fst st) (snd st) (Some i) (\<not> v)
             else st)"

definition defaultHideOnChange ::
  "computeSize \<Rightarrow> string \<Rightarrow> bool \<Rightarrow> globals \<times> node list \<Rightarrow> globals \<times> node list" where
  "defaultHideOnChange computeSize widgetName v s =
    forNodes (defaultHideNode computeSize widgetName v)
      ((fst s) \<lparr> DEFAULT_WIDGET_STATES := (DEFAULT_WIDGET_STATES (fst s))(widgetName \<mapsto> v) \<rparr>)
      (snd s)"

text \<open>Lines 410 to 427: \<^verbatim>\<open>onChange\<close> of the "enable dynamic widget hiding" setting.\<close>

definition reapply :: "computeSize \<Rightarrow> globals \<times> node \<Rightarrow> nat \<Rightarrow> globals \<times> node" where
  "reapply computeSize st i =
    (case w_RES4LYF_hidden (n_widgets (snd st) ! i) of
       None \<Rightarrow> st
     | Some hidden \<Rightarrow> toggleWidget computeSize (fst st) (snd st) (Some i) (\<not> hidden))"

definition enableHidingNode :: "computeSize \<Rightarrow> globals \<times> node \<Rightarrow> globals \<times> node" where
  "enableHidingNode computeSize st =
    (if nodeConfigs (n_comfyClass (snd st)) = None then st
     else foldl (reapply computeSize) st [0 ..< length (n_widgets (snd st))])"

definition enableHidingOnChange ::
  "computeSize \<Rightarrow> bool \<Rightarrow> globals \<times> node list \<Rightarrow> globals \<times> node list" where
  "enableHidingOnChange computeSize v s =
    forNodes (enableHidingNode computeSize) ((fst s) \<lparr> ENABLE_WIDGET_HIDING := v \<rparr>) (snd s)"

section \<open>Runs of the extension\<close>

text \<open>The module's variables when it has loaded (lines 3 to 17).\<close>

definition initialGlobals :: globals where
  "initialGlobals =
    \<lparr> ENABLE_WIDGET_HIDING = False, DEFAULT_WIDGET_STATES = Map.empty,
      widgetToggleStates = Map.empty, origProps = Map.empty \<rparr>"

text \<open>Everything that can happen to the module's variables: the host calls one of the
  extension's entry points on a node of the graph, or changes the graph itself (which
  cannot reach the module's variables).\<close>

datatype event =
    NodeCreated nat
  | Configure nat
  | AfterGraphConfigured nat
  | ConnectionsChange nat nat
  | WidgetCallback nat nat
  | MenuCallback nat menu_callback
  | DefaultHideSetting string bool
  | EnableHidingSetting bool
  | HostChange "node list \<Rightarrow> node list"

definition onNode ::
  "nat \<Rightarrow> (globals \<times> node \<Rightarrow> globals \<times> node) \<Rightarrow> globals \<times> node list \<Rightarrow> globals \<times> node list" where
  "onNode k body s =
    (if length (snd s) \<le> k then s
     else let r = body (fst s, snd s ! k) in (fst r, (snd s)[k := snd r]))"

fun step :: "computeSize \<Rightarrow> globals \<times> node list \<Rightarrow> event \<Rightarrow> globals \<times> node list" where
  "step cs s (NodeCreated k) = onNode k (nodeCreated cs) s"
| "step cs s (Configure k) =
    onNode k (\<lambda>st. fst (onConfigure cs (n_onConfigure (snd st)) st)) s"
| "step cs s (AfterGraphConfigured k) =
    onNode k (\<lambda>st. fst (onAfterGraphConfigured cs (n_onAfterGraphConfigured (snd st)) st)) s"
| "step cs s (ConnectionsChange k index) =
    onNode k (\<lambda>st. fst (onConnectionsChange cs (n_onConnectionsChange (snd st)) index st)) s"
| "step cs s (WidgetCallback k i) = onNode k (widgetCallback cs i) s"
| "step cs s (MenuCallback k cb) = onNode k (menuCallback cs cb) s"
| "step cs s (DefaultHideSetting widgetName v) = defaultHideOnChange cs widgetName v s"
| "step cs s (EnableHidingSetting v) = enableHidingOnChange cs v s"
| "step cs s (HostChange f) = (fst s, f (snd s))"

definition run :: "computeSize \<Rightarrow> globals \<times> node list \<Rightarrow> event list \<Rightarrow> globals \<times> node list" where
  "run cs s events = foldl (step cs) s events"

section \<open>Notions used in the statements\<close>

text \<open>The widget that lines 188 to 197 of \<^verbatim>\<open>toggleWidget\<close> leave behind, given the entry
  \<open>e\<close> of \<^verbatim>\<open>origProps\<close> for the widget's name and the value of the hiding switch.\<close>

definition toggled :: "orig \<Rightarrow> bool \<Rightarrow> widget \<Rightarrow> bool \<Rightarrow> widget" where
  "toggled e enabled w shouldShow =
    w \<lparr> w_RES4LYF_hidden := Some (\<not> shouldShow),
        w_type := (if shouldShow \<or> \<not> enabled then origType e else HIDDEN_TAG),
        w_computeSize := (if shouldShow \<or> \<not> enabled then origComputeSize e else Some HiddenSizeFn),
        w_computedHeight := (if shouldShow \<or> \<not> enabled then None else Some 0) \<rparr>"

text \<open>The module's variables after lines 179 to 184 have run on the widget.\<close>

definition captured :: "globals \<Rightarrow> widget \<Rightarrow> globals" where
  "captured g w = g \<lparr> origProps := (origProps g)(w_name w \<mapsto> origEntry g w) \<rparr>"

text \<open>What no function of the extension changes on a node: its id, its class, its
  inputs, and the names and values of its widgets (\<open>sameShape\<close>); and what no call of
  \<^verbatim>\<open>toggleWidget\<close> changes in the module's variables: the switch, the defaults and the
  overrides, while \<^verbatim>\<open>origProps\<close> may only gain entries (\<open>grows\<close>).\<close>

definition sameShape :: "node \<Rightarrow> node \<Rightarrow> bool" where
  "sameShape a b \<longleftrightarrow>
     n_id b = n_id a \<and> n_comfyClass b = n_comfyClass a \<and> n_inputs b = n_inputs a \<and>
     map w_name (n_widgets b) = map w_name (n_widgets a) \<and>
     map w_value (n_widgets b) = map w_value (n_widgets a)"

definition grows :: "globals \<Rightarrow> globals \<Rightarrow> bool" where
  "grows g g' \<longleftrightarrow>
     ENABLE_WIDGET_HIDING g' = ENABLE_WIDGET_HIDING g \<and>
     DEFAULT_WIDGET_STATES g' = DEFAULT_WIDGET_STATES g \<and>
     widgetToggleStates g' = widgetToggleStates g \<and>
     origProps g \<subseteq>\<^sub>m origProps g'"

definition stable :: "globals \<times> node \<Rightarrow> globals \<times> node \<Rightarrow> bool" where
  "stable st st' \<longleftrightarrow> grows (fst st) (fst st') \<and> sameShape (snd st) (snd st')"

text \<open>\<open>decidedAt st i w shouldShow\<close>: in the state \<open>st\<close> the widget at position \<open>i\<close> is
  \<open>w\<close> as \<^verbatim>\<open>toggleWidget\<close> leaves it for the decision \<open>shouldShow\<close>, with the entry that
  \<^verbatim>\<open>origProps\<close> holds for its name.\<close>

definition decidedAt :: "globals \<times> node \<Rightarrow> nat \<Rightarrow> widget \<Rightarrow> bool \<Rightarrow> bool" where
  "decidedAt st i w shouldShow \<longleftrightarrow>
     i < length (n_widgets (snd st)) \<and>
     (\<exists>e. origProps (fst st) (w_name w) = Some e \<and>
          n_widgets (snd st) ! i = toggled e (ENABLE_WIDGET_HIDING (fst st)) w shouldShow)"

text \<open>Values for the examples: a widget and a node as the host creates them, a host
  size computation in the manner of LiteGraph (a header, then for every widget the height
  its \<^verbatim>\<open>computeSize\<close> returns, or 20, plus 4), and a sampler node with the widgets and
  inputs that the rules of the registry name.\<close>

definition newWidget :: "string \<Rightarrow> string \<Rightarrow> jsval \<Rightarrow> widget" where
  "newWidget nm ty v =
    \<lparr> w_name = nm, w_value = v, w_type = ty, w_computeSize = None, w_computedHeight = None,
      w_RES4LYF_hidden = None, w_callback = None \<rparr>"

definition newNode :: "string \<Rightarrow> string \<Rightarrow> widget list \<Rightarrow> input list \<Rightarrow> node" where
  "newNode ident cls ws ins =
    \<lparr> n_id = ident, n_comfyClass = cls, n_widgets = ws, n_inputs = ins, n_size = (210, 400),
      n_graph = True, n_onConnectionsChange = ConnUndefined,
      n_getExtraMenuOptions = MenuUndefined, n_RES4LYF_menuWrapped = False,
      n_onConfigure = ConfigureUndefined, n_onAfterGraphConfigured = GraphUndefined \<rparr>"

definition exampleSize :: computeSize where
  "exampleSize node =
    (210, 30 + sum_list (map (\<lambda>w. (case w_computeSize w of
                                      None \<Rightarrow> 20
                                    | Some f \<Rightarrow> snd (callSizeFn (\<lambda>k width. (width, 60)) f 210)) + 4)
                          (n_widgets node)))"

definition exampleSampler :: node where
  "exampleSampler =
    newNode ''12'' ''ClownSampler''
      [ newWidget ''noise_type'' ''combo'' (JStr ''fractal''),
        newWidget ''alpha'' ''number'' (JNum 1),
        newWidget ''k'' ''number'' (JNum 1),
        newWidget ''latent_guide_weight'' ''number'' (JNum 0),
        newWidget ''guide_mode'' ''combo'' (JStr ''blend''),
        newWidget ''extra_options'' ''customtext'' (JStr '''') ]
      [ \<lparr> i_name = ''latent_guide'', i_link = LinkNull \<rparr>,
        \<lparr> i_name = ''latent_guide_inv'', i_link = LinkId 5 \<rparr> ]"

definition hidingOn :: globals where
  "hidingOn = initialGlobals \<lparr> ENABLE_WIDGET_HIDING := True \<rparr>"

definition exampleNoise :: node where
  "exampleNoise =
    newNode ''3'' ''AdvancedNoise''
      [ newWidget ''noise_type'' ''combo'' (JStr ''gaussian''),
        newWidget ''alpha'' ''slider'' (JNum 1),
        newWidget ''k'' ''slider'' (JNum 1) ]
      []"

text \<open>A run on a graph of the two example nodes: with hiding on, the noise node's
  \<open>alpha\<close> is hidden first, then the user hides \<open>extra_options\<close> of the sampler from
  its context menu.\<close>

definition exampleRun :: "globals \<times> node list" where
  "exampleRun =
    run exampleSize
      (onNode 0 (\<lambda>st. toggleWidget exampleSize (fst st) (snd st) (Some 1) False)
         (hidingOn, [exampleNoise, exampleSampler]))
      [MenuCallback 1 (ToggleCallback ''12_extra_options'' 5 None)]"

text \<open>\<open>basedOn st i w\<close>: the widget at position \<open>i\<close> is \<open>w\<close>, possibly after calls of
  \<^verbatim>\<open>toggleWidget\<close> on it.\<close>

definition basedOn :: "globals \<times> node \<Rightarrow> nat \<Rightarrow> widget \<Rightarrow> bool" where
  "basedOn st i w \<longleftrightarrow>
     i < length (n_widgets (snd st)) \<and>
     (n_widgets (snd st) ! i = w \<or> (\<exists>e en s. n_widgets (snd st) ! i = toggled e en w s))"

definition exampleSamplerUnlinked :: node where
  "exampleSamplerUnlinked =
    exampleSampler \<lparr> n_inputs := [ \<lparr> i_name = ''latent_guide'', i_link = LinkNull \<rparr>,
                                   \<lparr> i_name = ''latent_guide_inv'', i_link = LinkNull \<rparr> ] \<rparr>"

text \<open>A graph of two samplers; on the first the user has chosen "Show extra_options"
  from the context menu, which stores an override for that node.\<close>

definition exampleOverride :: "globals \<times> node list" where
  "exampleOverride =
    run exampleSize (hidingOn, [exampleSampler, exampleSampler \<lparr> n_id := ''13'' \<rparr>])
      [MenuCallback 0 (ToggleCallback ''12_extra_options'' 5 (Some True))]"


text \<open>\<open>sameHooks a b\<close>: the hook slots of the node have not changed.\<close>

definition sameHooks :: "node \<Rightarrow> node \<Rightarrow> bool" where
  "sameHooks a b \<longleftrightarrow>
     n_onConnectionsChange b = n_onConnectionsChange a \<and>
     n_getExtraMenuOptions b = n_getExtraMenuOptions a \<and>
     n_RES4LYF_menuWrapped b = n_RES4LYF_menuWrapped a \<and>
     n_onConfigure b = n_onConfigure a \<and>
     n_onAfterGraphConfigured b = n_onAfterGraphConfigured a"

text \<open>A sampler on which the host (or another extension) has already installed a
  handler in each of the four hook slots.\<close>

definition exampleHooked :: node where
  "exampleHooked =
    exampleSampler \<lparr> n_onConnectionsChange := ConnHost 1, n_getExtraMenuOptions := MenuHost 2,
                     n_onConfigure := ConfigureHost 3, n_onAfterGraphConfigured := GraphHost 4 \<rparr>"

text \<open>That sampler after the host has created it, and after the host has then
  configured it from a saved workflow (which calls the node's \<^verbatim>\<open>onConfigure\<close>).\<close>

definition exampleCreated :: "globals \<times> node" where
  "exampleCreated = nodeCreated exampleSize (initialGlobals, exampleHooked)"

definition exampleLoaded :: "globals \<times> node" where
  "exampleLoaded = fst (onConfigure exampleSize (n_onConfigure (snd exampleCreated)) exampleCreated)"

section \<open>Basic facts\<close>

lemma findIndex_Some:
  "findIndex P xs = Some i \<Longrightarrow> i < length xs \<and> P (xs ! i) \<and> (\<forall>j<i. \<not> P (xs ! j))"
proof (induction xs arbitrary: i)
  case Nil
  then show ?case by simp
next
  case (Cons x xs)
  show ?case
  proof (cases "P x")
    case True
    with Cons.prems show ?thesis by simp
  next
    case False
    with Cons.prems obtain k where k: "findIndex P xs = Some k" "i = Suc k"
      by auto
    from Cons.IH [OF k(1)] False k(2) show ?thesis
      by (auto simp: less_Suc_eq_0_disj)
  qed
qed

lemma findIndex_None: "findIndex P xs = None \<longleftrightarrow> (\<forall>x \<in> set xs. \<not> P x)"
  by (induction xs) auto

lemma captured_eq:
  "captured g w = (if origProps g (w_name w) = None
       then g \<lparr> origProps := (origProps g)(w_name w \<mapsto> \<lparr> origType = w_type w, origComputeSize = w_computeSize w \<rparr>) \<rparr>
       else g)"
  by (auto simp: captured_def origEntry_def fun_upd_idem)

lemma toggleWidget_None [simp]: "toggleWidget cs g node None s = (g, node)"
  by (simp add: toggleWidget_def)

lemma toggleWidget_outside: "length (n_widgets node) \<le> i \<Longrightarrow> toggleWidget cs g node (Some i) s = (g, node)"
  by (simp add: toggleWidget_def)

lemma toggleWidget_Some:
  assumes "i < length (n_widgets node)"
  shows "toggleWidget cs g node (Some i) s =
    (let w = n_widgets node ! i;
         node1 = node \<lparr> n_widgets := (n_widgets node)[i := toggled (origEntry g w) (ENABLE_WIDGET_HIDING g) w s] \<rparr>
     in (captured g w,
         node1 \<lparr> n_size := (fst (n_size node),
            if s \<or> \<not> ENABLE_WIDGET_HIDING g then max (snd (cs node1)) (snd (n_size node)) else snd (cs node1)) \<rparr>))"
  using assms
  by (auto simp: toggleWidget_def Let_def captured_eq toggled_def origEntry_def)

lemma toggled_names [simp]:
  "w_name (toggled e en w s) = w_name w" "w_value (toggled e en w s) = w_value w"
  "w_callback (toggled e en w s) = w_callback w"
  "w_RES4LYF_hidden (toggled e en w s) = Some (\<not> s)"
  by (simp_all add: toggled_def)

lemma toggled_toggled [simp]: "toggled e en (toggled e' en' w s') s = toggled e en w s"
  by (simp add: toggled_def)

lemma grows_refl [simp]: "grows g g"
  by (simp add: grows_def)

lemma grows_trans: "grows a b \<Longrightarrow> grows b c \<Longrightarrow> grows a c"
  by (auto simp: grows_def intro: map_le_trans)

lemma grows_captured: "grows g (captured g w)"
  by (auto simp: grows_def captured_def origEntry_def map_le_def split: option.splits)

lemma grows_origProps: "grows g g' \<Longrightarrow> origProps g nm = Some e \<Longrightarrow> origProps g' nm = Some e"
  by (auto simp: grows_def map_le_def dom_def)

lemma sameShape_refl [simp]: "sameShape a a"
  by (simp add: sameShape_def)

lemma sameShape_trans: "sameShape a b \<Longrightarrow> sameShape b c \<Longrightarrow> sameShape a c"
  by (simp add: sameShape_def)

lemma stable_refl [simp]: "stable st st"
  by (simp add: stable_def)

lemma stable_trans: "stable a b \<Longrightarrow> stable b c \<Longrightarrow> stable a c"
  by (auto simp: stable_def intro: grows_trans sameShape_trans)

lemma map_list_update_same: "i < length xs \<Longrightarrow> f y = f (xs ! i) \<Longrightarrow> map f (xs[i := y]) = map f xs"
  by (simp add: map_update list_update_same_conv)

lemma toggleWidget_stable: "stable (g, node) (toggleWidget cs g node widget s)"
proof (cases widget)
  case None
  then show ?thesis by simp
next
  case (Some i)
  show ?thesis
  proof (cases "i < length (n_widgets node)")
    case True
    then show ?thesis
      unfolding Some
      by (simp add: toggleWidget_Some Let_def stable_def grows_captured sameShape_def map_list_update_same)
  next
    case False
    then show ?thesis
      unfolding Some by (simp add: toggleWidget_outside)
  qed
qed

lemma foldl_stable:
  assumes "\<And>st x. stable st (f st x)"
  shows "stable st (foldl f st xs)"
proof (induction xs arbitrary: st)
  case Nil
  show ?case by simp
next
  case (Cons x xs)
  show ?case using stable_trans [OF assms Cons.IH] by simp
qed

lemma findIndex_map: "findIndex P (map f xs) = findIndex (P \<circ> f) xs"
  by (induction xs) auto

lemma findWidget_names: "findWidget node nm = findIndex (\<lambda>x. x = nm) (map w_name (n_widgets node))"
  by (simp add: findWidget_def findIndex_map comp_def)

lemma sameShape_findWidget: "sameShape a b \<Longrightarrow> findWidget b nm = findWidget a nm"
  by (simp add: findWidget_names sameShape_def)

lemma sameShape_length: "sameShape a b \<Longrightarrow> length (n_widgets b) = length (n_widgets a)"
  unfolding sameShape_def by (metis length_map)

lemma sameShape_nth:
  assumes "sameShape a b" "i < length (n_widgets a)"
  shows "w_name (n_widgets b ! i) = w_name (n_widgets a ! i)"
    and "w_value (n_widgets b ! i) = w_value (n_widgets a ! i)"
proof -
  have l: "i < length (n_widgets b)" using assms by (simp add: sameShape_length)
  have "map w_name (n_widgets b) ! i = map w_name (n_widgets a) ! i"
       "map w_value (n_widgets b) ! i = map w_value (n_widgets a) ! i"
    using assms(1) by (simp_all add: sameShape_def)
  with l assms(2) show "w_name (n_widgets b ! i) = w_name (n_widgets a ! i)"
    and "w_value (n_widgets b ! i) = w_value (n_widgets a ! i)" by simp_all
qed

lemma sameShape_showWidgets: "sameShape a b \<Longrightarrow> showWidgets b grp = showWidgets a grp"
proof -
  assume s: "sameShape a b"
  have "\<And>nm. (case findWidget b nm of None \<Rightarrow> False | Some i \<Rightarrow> w_value (n_widgets b ! i) \<in> set (independentValues grp))
      = (case findWidget a nm of None \<Rightarrow> False | Some i \<Rightarrow> w_value (n_widgets a ! i) \<in> set (independentValues grp))"
  proof -
    fix nm
    show "(case findWidget b nm of None \<Rightarrow> False | Some i \<Rightarrow> w_value (n_widgets b ! i) \<in> set (independentValues grp))
      = (case findWidget a nm of None \<Rightarrow> False | Some i \<Rightarrow> w_value (n_widgets a ! i) \<in> set (independentValues grp))"
    proof (cases "findWidget a nm")
      case None
      then show ?thesis by (simp add: sameShape_findWidget [OF s])
    next
      case (Some i)
      then have "i < length (n_widgets a)" by (auto simp: findWidget_def dest: findIndex_Some)
      then show ?thesis using Some sameShape_nth(2) [OF s] by (simp add: sameShape_findWidget [OF s])
    qed
  qed
  then show ?thesis by (simp add: showWidgets_def)
qed

lemma sameShape_isAnyConnected: "sameShape a b \<Longrightarrow> isAnyConnected b grp = isAnyConnected a grp"
  by (simp add: isAnyConnected_def findInput_def sameShape_def cong: option.case_cong)

lemma sameShape_stateKey: "sameShape a b \<Longrightarrow> stateKey b nm = stateKey a nm"
  by (simp add: stateKey_def sameShape_def)


lemma toggleTarget_stable: "stable st (toggleTarget cs s st nm)"
  using toggleWidget_stable [of "fst st" "snd st"] by (simp add: toggleTarget_def)

lemma toggleFound_stable: "stable st (toggleFound cs s st nm)"
  using toggleWidget_stable [of "fst st" "snd st"]
  by (simp add: toggleFound_def split: option.splits)

lemma handleGroup_stable: "stable st (handleGroup cs st grp)"
  unfolding handleGroup_def by (rule foldl_stable) (rule toggleTarget_stable)

lemma createGenericHandler_stable: "stable st (createGenericHandler cs cfg st)"
  unfolding createGenericHandler_def
  by (cases cfg) (simp_all add: foldl_stable handleGroup_stable)

lemma connectionGroup_stable: "stable st (connectionGroup cs nm st grp)"
  unfolding connectionGroup_def by (simp add: foldl_stable toggleFound_stable)

lemma handleConnectionChange_stable: "stable st (handleConnectionChange cs index st)"
  unfolding handleConnectionChange_def
  by (simp add: Let_def foldl_stable connectionGroup_stable split: option.splits)

lemma applyDefault_stable: "stable st (applyDefault cs st nm)"
  using toggleWidget_stable [of "fst st" "snd st"]
  by (simp add: applyDefault_def split: option.splits)

lemma initGroup_stable: "stable st (initGroup cs st grp)"
  unfolding initGroup_def by (simp add: foldl_stable toggleFound_stable)

lemma setCallback_sameShape: "sameShape node (setCallback cfg node nm)"
proof (cases "findWidget node nm")
  case None
  then show ?thesis by (simp add: setCallback_def)
next
  case (Some i)
  then have "i < length (n_widgets node)"
    by (auto simp: findWidget_def dest: findIndex_Some)
  with Some show ?thesis
    by (simp add: setCallback_def sameShape_def map_list_update_same)
qed

lemma foldl_sameShape:
  assumes "\<And>n x. sameShape n (f n x)"
  shows "sameShape n (foldl f n xs)"
proof (induction xs arbitrary: n)
  case Nil
  show ?case by simp
next
  case (Cons x xs)
  show ?case using sameShape_trans [OF assms Cons.IH] by simp
qed

lemma setCallbacks_sameShape: "sameShape node (setCallbacks cfg node)"
  unfolding setCallbacks_def
  by (cases cfg) (simp_all add: foldl_sameShape setCallback_sameShape)

lemma wrapHooks_sameShape: "sameShape node (wrapHooks cfg node)"
  by (simp add: wrapHooks_def Let_def sameShape_def)

lemma initOptionalInputs_stable: "stable st (initOptionalInputs cs st)"
  by (simp add: initOptionalInputs_def foldl_stable initGroup_stable split: option.splits)

lemma stable_snd: "sameShape (snd st) n \<Longrightarrow> stable st (fst st, n)"
  by (simp add: stable_def)

lemma setupDynamicWidgets_stable: "stable st (setupDynamicWidgets cs cfg st)"
proof -
  define st1 where "st1 = foldl (applyDefault cs) st TOGGLEABLE_WIDGETS"
  define st2 where "st2 = createGenericHandler cs cfg st1"
  define node4 where "node4 = wrapHooks cfg (setCallbacks cfg (snd st2))"
  have 1: "stable st st1" unfolding st1_def by (simp add: foldl_stable applyDefault_stable)
  have 2: "stable st1 st2" unfolding st2_def by (rule createGenericHandler_stable)
  have "sameShape (snd st2) node4"
    unfolding node4_def by (rule sameShape_trans [OF setCallbacks_sameShape wrapHooks_sameShape])
  then have 3: "stable st2 (fst st2, node4)" by (rule stable_snd)
  have 4: "stable (fst st2, node4) (initOptionalInputs cs (fst st2, node4))"
    by (rule initOptionalInputs_stable)
  have "setupDynamicWidgets cs cfg st = initOptionalInputs cs (fst st2, node4)"
    by (simp add: setupDynamicWidgets_def Let_def st1_def st2_def node4_def)
  with stable_trans [OF stable_trans [OF stable_trans [OF 1 2] 3] 4] show ?thesis by simp
qed

lemma nodeCreated_stable: "stable st (nodeCreated cs st)"
proof (cases "nodeConfigs (n_comfyClass (snd st))")
  case None
  then show ?thesis by (simp add: nodeCreated_def)
next
  case (Some config)
  define st2 where "st2 = createGenericHandler cs (dependentWidgets config)
                            (setupDynamicWidgets cs (dependentWidgets config) st)"
  have "stable st st2"
    unfolding st2_def
    by (rule stable_trans [OF setupDynamicWidgets_stable createGenericHandler_stable])
  moreover have "stable st2 (nodeCreated cs st)"
    using Some by (simp add: nodeCreated_def Let_def st2_def stable_def sameShape_def)
  ultimately show ?thesis by (rule stable_trans)
qed

lemma onConnectionsChange_stable: "stable st (fst (onConnectionsChange cs h index st))"
proof (induction h arbitrary: st)
  case ConnUndefined
  show ?case by simp
next
  case (ConnHost k)
  show ?case by simp
next
  case (ConnWrapper orig cfg)
  have "stable st (fst (if orig = ConnUndefined then (st, []) else onConnectionsChange cs orig index st))"
    using ConnWrapper.IH by simp
  then have "stable st (createGenericHandler cs cfg (handleConnectionChange cs index
      (fst (if orig = ConnUndefined then (st, []) else onConnectionsChange cs orig index st))))"
    by (rule stable_trans [OF _ stable_trans [OF handleConnectionChange_stable createGenericHandler_stable]])
  then show ?case
    by (simp add: Let_def)
qed

lemma onConfigure_stable: "stable st (fst (onConfigure cs h st))"
proof (induction h arbitrary: st)
  case ConfigureUndefined
  show ?case by simp
next
  case (ConfigureHost k)
  show ?case by simp
next
  case (ConfigureWrapper orig cfg)
  have "stable st (fst (if orig = ConfigureUndefined then (st, []) else onConfigure cs orig st))"
    using ConfigureWrapper.IH by simp
  then have "stable st (setupDynamicWidgets cs cfg
      (fst (if orig = ConfigureUndefined then (st, []) else onConfigure cs orig st)))"
    by (rule stable_trans [OF _ setupDynamicWidgets_stable])
  then show ?case
    by (simp add: Let_def)
qed

lemma onAfterGraphConfigured_stable: "stable st (fst (onAfterGraphConfigured cs h st))"
  by (cases h) (simp_all add: createGenericHandler_stable)

lemma widgetCallback_stable: "stable st (widgetCallback cs i st)"
  by (simp add: widgetCallback_def createGenericHandler_stable split: option.splits callback.splits)

lemma reapply_stable: "stable st (reapply cs st i)"
  using toggleWidget_stable [of "fst st" "snd st"]
  by (simp add: reapply_def split: option.splits)

lemma enableHidingNode_stable: "stable st (enableHidingNode cs st)"
  by (simp add: enableHidingNode_def foldl_stable reapply_stable)

lemma defaultHideNode_stable: "stable st (defaultHideNode cs nm v st)"
  using toggleWidget_stable [of "fst st" "snd st"]
  by (simp add: defaultHideNode_def split: option.splits)

section \<open>The toggle engine: one call\<close>

lemma toggleWidget_fst: "i < length (n_widgets node) \<Longrightarrow>
   fst (toggleWidget cs g node (Some i) s) = captured g (n_widgets node ! i)"
  by (simp add: toggleWidget_Some Let_def)

lemma toggleWidget_widgets: "i < length (n_widgets node) \<Longrightarrow>
   n_widgets (snd (toggleWidget cs g node (Some i) s)) =
   (n_widgets node)[i := toggled (origEntry g (n_widgets node ! i)) (ENABLE_WIDGET_HIDING g) (n_widgets node ! i) s]"
  by (simp add: toggleWidget_Some Let_def)

lemma toggleWidget_nth: "i < length (n_widgets node) \<Longrightarrow>
   n_widgets (snd (toggleWidget cs g node (Some i) s)) ! i =
   toggled (origEntry g (n_widgets node ! i)) (ENABLE_WIDGET_HIDING g) (n_widgets node ! i) s"
  by (simp add: toggleWidget_widgets)

lemma toggleWidget_size: "i < length (n_widgets node) \<Longrightarrow>
   n_size (snd (toggleWidget cs g node (Some i) s)) =
   (fst (n_size node),
    if s \<or> \<not> ENABLE_WIDGET_HIDING g
    then max (snd (cs (node \<lparr> n_widgets := n_widgets (snd (toggleWidget cs g node (Some i) s)) \<rparr>)))
             (snd (n_size node))
    else snd (cs (node \<lparr> n_widgets := n_widgets (snd (toggleWidget cs g node (Some i) s)) \<rparr>)))"
  by (simp add: toggleWidget_Some Let_def)

lemma origProps_captured: "origProps (captured g w) (w_name w) = Some (origEntry g w)"
  by (simp add: captured_def)

text \<open>
  What one call \<^verbatim>\<open>toggleWidget(node, widget, shouldShow)\<close> does to a widget of the node.
  When \<open>shouldShow\<close> is true or the hiding switch is off, the widget's type and
  \<^verbatim>\<open>computeSize\<close> become those of the entry that \<^verbatim>\<open>origProps\<close> holds under the widget's
  name once lines 179 to 184 have run (the stored entry, or the widget's own type and
  \<^verbatim>\<open>computeSize\<close> captured by this call when none was stored), and \<^verbatim>\<open>computedHeight\<close> is
  deleted; otherwise the type is the hidden tag, \<^verbatim>\<open>computeSize\<close> is the function that
  returns \<open>[0, -4]\<close> and \<^verbatim>\<open>computedHeight\<close> is 0.
\<close>

lemma toggleWidget_sets_widget:
  assumes "i < length (n_widgets node)"
  shows "let w = n_widgets node ! i;
             r = toggleWidget cs g node (Some i) shouldShow;
             w' = n_widgets (snd r) ! i
         in (if shouldShow \<or> \<not> ENABLE_WIDGET_HIDING g
             then w_type w' = origType (origEntry g w) \<and>
                  w_computeSize w' = origComputeSize (origEntry g w) \<and>
                  w_computedHeight w' = None
             else w_type w' = HIDDEN_TAG \<and>
                  w_computeSize w' = Some HiddenSizeFn \<and>
                  callSizeFn host HiddenSizeFn width = (0, - 4) \<and>
                  w_computedHeight w' = Some 0) \<and>
            origProps (fst r) (w_name w) = Some (origEntry g w)"
  using assms
  by (simp add: Let_def toggleWidget_nth toggleWidget_fst origProps_captured toggled_def)

lemma toggleWidget_sets_widget_example:
  "1 < length (n_widgets exampleSampler) \<and>
   w_type (n_widgets (snd (toggleWidget exampleSize hidingOn exampleSampler (Some 1) False)) ! 1)
     = ''RES4LYF_hidden'' \<and>
   w_computedHeight (n_widgets (snd (toggleWidget exampleSize hidingOn exampleSampler (Some 1) False)) ! 1)
     = Some 0 \<and>
   origProps (fst (toggleWidget exampleSize hidingOn exampleSampler (Some 1) False)) ''alpha''
     = Some \<lparr> origType = ''number'', origComputeSize = None \<rparr>"
  using toggleWidget_sets_widget [where i = 1 and node = exampleSampler and shouldShow = False
      and g = hidingOn and cs = exampleSize]
  by (simp add: Let_def exampleSampler_def newNode_def newWidget_def hidingOn_def
      initialGlobals_def origEntry_def HIDDEN_TAG_def)

text \<open>
  Claim C3 says that a call which shows a widget (or any call while the hiding switch is
  off) restores the widget's type and \<^verbatim>\<open>computeSize\<close> to the originals captured on the
  widget's first toggle. The source keeps the originals under the widget's name alone
  (lines 179 to 184), shared by all nodes, so they are captured only from the first
  widget of that name that is ever toggled. A sampler's number widget \<open>alpha\<close> that has
  never been toggled comes out of its very first call as a slider, the type captured
  from the \<open>alpha\<close> of a noise node toggled before it: once when it is shown with the
  switch on, once when it is toggled with the switch off.
\<close>

theorem first_toggle_restores_other_widget:
  "w_RES4LYF_hidden (n_widgets exampleSampler ! 1) = None \<and>
   w_type (n_widgets exampleSampler ! 1) = ''number'' \<and>
   w_type (n_widgets (snd (toggleWidget exampleSize
       (fst (toggleWidget exampleSize hidingOn exampleNoise (Some 1) False))
       exampleSampler (Some 1) True)) ! 1)
     = ''slider'' \<and>
   w_type (n_widgets (snd (toggleWidget exampleSize
       (fst (toggleWidget exampleSize initialGlobals exampleNoise (Some 1) False))
       exampleSampler (Some 1) False)) ! 1)
     = ''slider''"
proof -
  have a: "1 < length (n_widgets exampleSampler)"
    by (simp add: exampleSampler_def newNode_def)
  have b: "1 < length (n_widgets exampleNoise)"
    by (simp add: exampleNoise_def newNode_def)
  have e: "origEntry (fst (toggleWidget exampleSize g exampleNoise (Some 1) False))
             (n_widgets exampleSampler ! 1) = \<lparr> origType = ''slider'', origComputeSize = None \<rparr>"
    if "origProps g = Map.empty" for g
    unfolding toggleWidget_fst [OF b]
    using that
    by (simp add: origEntry_def captured_def exampleSampler_def exampleNoise_def newNode_def
        newWidget_def)
  have e1: "origProps hidingOn = Map.empty" "origProps initialGlobals = Map.empty"
    "\<not> ENABLE_WIDGET_HIDING initialGlobals"
    by (simp_all add: hidingOn_def initialGlobals_def)
  have en: "\<not> ENABLE_WIDGET_HIDING (fst (toggleWidget exampleSize initialGlobals exampleNoise (Some 1) False))"
    unfolding toggleWidget_fst [OF b] by (simp add: captured_def initialGlobals_def)
  show ?thesis
    unfolding toggleWidget_nth [OF a] e [OF e1(1)] e [OF e1(2)]
    using en by (simp add: toggled_def exampleSampler_def newNode_def newWidget_def)
qed

text \<open>
  Claim C4. After the call the node's width is unchanged. Its height is, when showing
  (or with the hiding switch off), the larger of the height the host computes for the
  node with the widget just changed and the node's height before the call; when hiding,
  the computed height. A call that shows never leaves the node shorter than it was.
\<close>

theorem toggleWidget_node_size:
  assumes "i < length (n_widgets node)"
  shows "let r = toggleWidget cs g node (Some i) shouldShow;
             newSize = cs (node \<lparr> n_widgets := (n_widgets node)[i := n_widgets (snd r) ! i] \<rparr>)
         in fst (n_size (snd r)) = fst (n_size node) \<and>
            snd (n_size (snd r)) =
              (if shouldShow \<or> \<not> ENABLE_WIDGET_HIDING g
               then max (snd newSize) (snd (n_size node))
               else snd newSize) \<and>
            (shouldShow \<longrightarrow> snd (n_size node) \<le> snd (n_size (snd r)))"
  using assms
  by (simp add: Let_def toggleWidget_size toggleWidget_widgets)

theorem toggleWidget_node_size_witness:
  "1 < length (n_widgets exampleSampler) \<and>
   n_size (snd (toggleWidget exampleSize hidingOn exampleSampler (Some 1) True)) = (210, 400) \<and>
   n_size (snd (toggleWidget exampleSize hidingOn exampleSampler (Some 1) False)) = (210, 150)"
  using toggleWidget_node_size [where i = 1 and node = exampleSampler and cs = exampleSize
      and g = hidingOn and shouldShow = True]
    toggleWidget_node_size [where i = 1 and node = exampleSampler and cs = exampleSize
      and g = hidingOn and shouldShow = False]
  by (simp add: Let_def exampleSampler_def newNode_def newWidget_def hidingOn_def
      initialGlobals_def exampleSize_def toggleWidget_def prod_eq_iff)

lemma origEntry_captured: "w_name w' = w_name w \<Longrightarrow> origEntry (captured g w) w' = origEntry g w"
  by (simp add: origEntry_def captured_def)

lemma captured_captured: "w_name w' = w_name w \<Longrightarrow> captured (captured g w) w' = captured g w"
  by (simp add: captured_def origEntry_def)

lemma ENABLE_captured [simp]: "ENABLE_WIDGET_HIDING (captured g w) = ENABLE_WIDGET_HIDING g"
  by (simp add: captured_def)

lemma toggleWidget_again:
  assumes cs: "\<forall>n sz. cs (n \<lparr> n_size := sz \<rparr>) = cs n"
    and i: "i < length (n_widgets node)"
  shows "toggleWidget cs (fst (toggleWidget cs g node (Some i) s))
           (snd (toggleWidget cs g node (Some i) s)) (Some i) s
         = toggleWidget cs g node (Some i) s"
proof -
  define w where "w = n_widgets node ! i"
  define t where "t = toggled (origEntry g w) (ENABLE_WIDGET_HIDING g) w s"
  define node1 where "node1 = node \<lparr> n_widgets := (n_widgets node)[i := t] \<rparr>"
  define h where "h = (if s \<or> \<not> ENABLE_WIDGET_HIDING g
      then max (snd (cs node1)) (snd (n_size node)) else snd (cs node1))"
  have r1: "toggleWidget cs g node (Some i) s = (captured g w, node1 \<lparr> n_size := (fst (n_size node), h) \<rparr>)"
    using i by (simp add: toggleWidget_Some Let_def w_def t_def node1_def h_def)
  have i1: "i < length (n_widgets (node1 \<lparr> n_size := (fst (n_size node), h) \<rparr>))"
    using i by (simp add: node1_def)
  have nth: "n_widgets (node1 \<lparr> n_size := (fst (n_size node), h) \<rparr>) ! i = t"
    using i by (simp add: node1_def)
  have nm: "w_name t = w_name w" by (simp add: t_def)
  have tt: "toggled (origEntry g w) (ENABLE_WIDGET_HIDING g) t s = t"
    by (simp add: t_def)
  have same: "node1 \<lparr> n_size := (fst (n_size node), h), n_widgets := (n_widgets node1)[i := t] \<rparr>
      = node1 \<lparr> n_size := (fst (n_size node), h) \<rparr>"
    by (simp add: node1_def)
  have cs1: "cs (node1 \<lparr> n_size := (fst (n_size node), h) \<rparr>) = cs node1"
    using cs by simp
  have hh: "(if s \<or> \<not> ENABLE_WIDGET_HIDING g then max (snd (cs node1)) h else snd (cs node1)) = h"
    by (simp add: h_def)
  have "toggleWidget cs (captured g w) (node1 \<lparr> n_size := (fst (n_size node), h) \<rparr>) (Some i) s
      = (captured g w, node1 \<lparr> n_size := (fst (n_size node), h) \<rparr>)"
  proof (cases "s \<or> \<not> ENABLE_WIDGET_HIDING g")
    case True
    with hh have "max (snd (cs node1)) h = h" by simp
    with True tt show ?thesis
      unfolding toggleWidget_Some [OF i1] nth Let_def
      by (simp add: origEntry_captured [OF nm] captured_captured [OF nm] same cs1)
  next
    case False
    with hh have "snd (cs node1) = h" by simp
    with False tt show ?thesis
      unfolding toggleWidget_Some [OF i1] nth Let_def
      by (simp add: origEntry_captured [OF nm] captured_captured [OF nm] same cs1)
  qed
  then show ?thesis by (simp add: r1)
qed

text \<open>
  Claim C5. Calling \<^verbatim>\<open>toggleWidget(node, widget, shouldShow)\<close> twice in a row leaves the
  node with the size it has after the first call; indeed the second call changes nothing
  at all. The host's \<^verbatim>\<open>node.computeSize()\<close> is taken to compute the natural size from the
  node's content, not from the size the node currently has.
\<close>

theorem toggleWidget_twice_same_size:
  assumes "\<forall>n sz. cs (n \<lparr> n_size := sz \<rparr>) = cs n"
  shows "let r1 = toggleWidget cs g node widget shouldShow;
             r2 = toggleWidget cs (fst r1) (snd r1) widget shouldShow
         in n_size (snd r2) = n_size (snd r1) \<and> r2 = r1"
proof (cases widget)
  case None
  then show ?thesis by simp
next
  case (Some i)
  show ?thesis
  proof (cases "i < length (n_widgets node)")
    case True
    from toggleWidget_again [OF assms True] show ?thesis
      unfolding Some Let_def by simp
  next
    case False
    then show ?thesis unfolding Some by (simp add: toggleWidget_outside)
  qed
qed

theorem toggleWidget_twice_same_size_witness:
  "(\<forall>n sz. exampleSize (n \<lparr> n_size := sz \<rparr>) = exampleSize n) \<and>
   n_size (snd (toggleWidget exampleSize hidingOn exampleSampler (Some 1) False)) = (210, 150) \<and>
   n_size (snd (toggleWidget exampleSize
       (fst (toggleWidget exampleSize hidingOn exampleSampler (Some 1) False))
       (snd (toggleWidget exampleSize hidingOn exampleSampler (Some 1) False)) (Some 1) False))
     = (210, 150)"
proof -
  have h: "\<forall>n sz. exampleSize (n \<lparr> n_size := sz \<rparr>) = exampleSize n"
    by (simp add: exampleSize_def)
  have one: "n_size (snd (toggleWidget exampleSize hidingOn exampleSampler (Some 1) False)) = (210, 150)"
    by (simp add: Let_def exampleSampler_def newNode_def newWidget_def hidingOn_def
      initialGlobals_def exampleSize_def toggleWidget_def)
  from toggleWidget_twice_same_size [OF h, where g = hidingOn and node = exampleSampler
      and widget = "Some 1" and shouldShow = False] h one
  show ?thesis by (simp add: Let_def)
qed

section \<open>Hiding and showing again\<close>

lemma hide_show_entry:
  assumes i: "i < length (n_widgets node)"
  shows "n_widgets (snd (toggleWidget cs (fst (toggleWidget cs g node (Some i) s1))
              (snd (toggleWidget cs g node (Some i) s1)) (Some i) s2)) ! i
         = toggled (origEntry g (n_widgets node ! i)) (ENABLE_WIDGET_HIDING g) (n_widgets node ! i) s2"
proof -
  let ?r1 = "toggleWidget cs g node (Some i) s1"
  have i1: "i < length (n_widgets (snd ?r1))"
    using i by (simp add: toggleWidget_widgets)
  have w1: "n_widgets (snd ?r1) ! i
      = toggled (origEntry g (n_widgets node ! i)) (ENABLE_WIDGET_HIDING g) (n_widgets node ! i) s1"
    using i by (rule toggleWidget_nth)
  have g1: "fst ?r1 = captured g (n_widgets node ! i)"
    using i by (rule toggleWidget_fst)
  show ?thesis
    unfolding toggleWidget_nth [OF i1] w1 g1
    by (simp add: origEntry_captured)
qed

text \<open>
  Hiding a widget and then showing it again gives the widget's type and \<^verbatim>\<open>computeSize\<close>
  back when, before the hide, \<^verbatim>\<open>origProps\<close> held no entry under the widget's name or held
  an entry equal to them.
\<close>

lemma hide_then_show_restores:
  assumes "i < length (n_widgets node)"
    and "origProps g (w_name (n_widgets node ! i)) = None \<or>
         origProps g (w_name (n_widgets node ! i)) =
           Some \<lparr> origType = w_type (n_widgets node ! i),
                  origComputeSize = w_computeSize (n_widgets node ! i) \<rparr>"
  shows "let r1 = toggleWidget cs g node (Some i) False;
             r2 = toggleWidget cs (fst r1) (snd r1) (Some i) True
         in w_type (n_widgets (snd r2) ! i) = w_type (n_widgets node ! i) \<and>
            w_computeSize (n_widgets (snd r2) ! i) = w_computeSize (n_widgets node ! i)"
proof -
  from assms(2) have "origEntry g (n_widgets node ! i) =
      \<lparr> origType = w_type (n_widgets node ! i), origComputeSize = w_computeSize (n_widgets node ! i) \<rparr>"
    by (auto simp: origEntry_def)
  then show ?thesis
    unfolding Let_def hide_show_entry [OF assms(1)] by (simp add: toggled_def)
qed

lemma hide_then_show_restores_example:
  "1 < length (n_widgets exampleSampler) \<and>
   origProps hidingOn (w_name (n_widgets exampleSampler ! 1)) = None \<and>
   w_type (n_widgets (snd (toggleWidget exampleSize hidingOn exampleSampler (Some 1) False)) ! 1)
     = ''RES4LYF_hidden'' \<and>
   w_type (n_widgets (snd (toggleWidget exampleSize
       (fst (toggleWidget exampleSize hidingOn exampleSampler (Some 1) False))
       (snd (toggleWidget exampleSize hidingOn exampleSampler (Some 1) False)) (Some 1) True)) ! 1)
     = ''number''"
proof -
  have a: "1 < length (n_widgets exampleSampler)"
    by (simp add: exampleSampler_def newNode_def)
  have b: "origProps hidingOn (w_name (n_widgets exampleSampler ! 1)) = None"
    by (simp add: hidingOn_def initialGlobals_def)
  have c: "w_type (n_widgets exampleSampler ! 1) = ''number''"
    by (simp add: exampleSampler_def newNode_def newWidget_def)
  have d: "w_type (n_widgets (snd (toggleWidget exampleSize hidingOn exampleSampler (Some 1) False)) ! 1)
     = ''RES4LYF_hidden''"
    using a by (simp add: toggleWidget_nth toggled_def hidingOn_def initialGlobals_def HIDDEN_TAG_def)
  from hide_then_show_restores [OF a disjI1 [OF b], where cs = exampleSize] a b c d
  show ?thesis by (simp add: Let_def)
qed

text \<open>
  Claim C6 says that hiding a widget and then showing it again restores its type and
  \<^verbatim>\<open>computeSize\<close> to the values it had before the hide. The source restores from the entry
  kept under the widget's name alone, so the round trip fails when that entry was
  captured from a widget of another node: a sampler's number widget \<open>alpha\<close>, hidden and
  shown again after the \<open>alpha\<close> slider of a noise node was toggled, comes back as a
  slider.
\<close>

theorem hide_then_show_counterexample:
  "w_type (n_widgets exampleSampler ! 1) = ''number'' \<and>
   w_type (n_widgets (snd (toggleWidget exampleSize
       (fst (toggleWidget exampleSize
              (fst (toggleWidget exampleSize hidingOn exampleNoise (Some 1) False))
              exampleSampler (Some 1) False))
       (snd (toggleWidget exampleSize
              (fst (toggleWidget exampleSize hidingOn exampleNoise (Some 1) False))
              exampleSampler (Some 1) False))
       (Some 1) True)) ! 1)
     = ''slider''"
proof -
  have a: "1 < length (n_widgets exampleSampler)"
    by (simp add: exampleSampler_def newNode_def)
  have b: "1 < length (n_widgets exampleNoise)"
    by (simp add: exampleNoise_def newNode_def)
  have c: "w_type (n_widgets exampleSampler ! 1) = ''number''"
    by (simp add: exampleSampler_def newNode_def newWidget_def)
  have e: "origEntry (fst (toggleWidget exampleSize hidingOn exampleNoise (Some 1) False))
             (n_widgets exampleSampler ! 1) = \<lparr> origType = ''slider'', origComputeSize = None \<rparr>"
    unfolding toggleWidget_fst [OF b]
    by (simp add: origEntry_def captured_def exampleSampler_def exampleNoise_def newNode_def
        newWidget_def hidingOn_def initialGlobals_def)
  show ?thesis
    unfolding hide_show_entry [OF a] e
    by (simp add: toggled_def exampleSampler_def newNode_def newWidget_def)
qed

section \<open>Loops over the graph and runs\<close>

lemma forNodes_length [simp]: "length (snd (forNodes body g nodes)) = length nodes"
  by (induction nodes arbitrary: g) (simp_all add: Let_def)

lemma stable_grows: "stable (g, n) st' \<Longrightarrow> grows g (fst st')"
  by (simp add: stable_def)

lemma forNodes_grows:
  assumes "\<And>st. stable st (body st)"
  shows "grows g (fst (forNodes body g nodes))"
proof (induction nodes arbitrary: g)
  case Nil
  show ?case by simp
next
  case (Cons n nodes)
  have "grows g (fst (body (g, n)))" using assms [of "(g, n)"] by (simp add: stable_def)
  from grows_trans [OF this Cons.IH] show ?case by (simp add: Let_def)
qed

lemma forNodes_nth:
  assumes body: "\<And>st. stable st (body st)"
    and k: "k < length nodes"
  shows "\<exists>gk. grows g gk \<and> snd (forNodes body g nodes) ! k = snd (body (gk, nodes ! k)) \<and>
              grows (fst (body (gk, nodes ! k))) (fst (forNodes body g nodes))"
  using k
proof (induction nodes arbitrary: g k)
  case Nil
  then show ?case by simp
next
  case (Cons n nodes)
  show ?case
  proof (cases k)
    case 0
    have "grows (fst (body (g, n))) (fst (forNodes body (fst (body (g, n))) nodes))"
      by (rule forNodes_grows [OF body])
    then have "grows g g \<and> snd (forNodes body g (n # nodes)) ! k = snd (body (g, (n # nodes) ! k)) \<and>
              grows (fst (body (g, (n # nodes) ! k))) (fst (forNodes body g (n # nodes)))"
      using 0 by (simp add: Let_def)
    then show ?thesis by blast
  next
    case (Suc k')
    with Cons.prems have "k' < length nodes" by simp
    from Cons.IH [OF this, of "fst (body (g, n))"] obtain gk where
      gk: "grows (fst (body (g, n))) gk"
        "snd (forNodes body (fst (body (g, n))) nodes) ! k' = snd (body (gk, nodes ! k'))"
        "grows (fst (body (gk, nodes ! k'))) (fst (forNodes body (fst (body (g, n))) nodes))"
      by blast
    have "grows g (fst (body (g, n)))" using body [of "(g, n)"] by (simp add: stable_def)
    from grows_trans [OF this gk(1)] have "grows g gk" .
    with gk(2,3) Suc have "grows g gk \<and> snd (forNodes body g (n # nodes)) ! k = snd (body (gk, (n # nodes) ! k)) \<and>
              grows (fst (body (gk, (n # nodes) ! k))) (fst (forNodes body g (n # nodes)))"
      by (simp add: Let_def)
    then show ?thesis by blast
  qed
qed

lemma grows_map_le: "grows g g' \<Longrightarrow> origProps g \<subseteq>\<^sub>m origProps g'"
  by (simp add: grows_def)

lemma onNode_keeps:
  assumes "\<And>st. stable st (body st)"
  shows "origProps (fst s) \<subseteq>\<^sub>m origProps (fst (onNode k body s))"
proof (cases "length (snd s) \<le> k")
  case True
  then show ?thesis by (simp add: onNode_def)
next
  case False
  have "grows (fst s) (fst (body (fst s, snd s ! k)))"
    using assms [of "(fst s, snd s ! k)"] by (simp add: stable_def)
  with False show ?thesis by (simp add: onNode_def Let_def grows_map_le)
qed

lemma menuCallback_keeps: "origProps (fst st) \<subseteq>\<^sub>m origProps (fst (menuCallback cs cb st))"
proof (cases cb)
  case (RefreshCallback cfg)
  have "grows (fst st) (fst (createGenericHandler cs cfg st))"
    using createGenericHandler_stable [of st cs cfg] by (simp add: stable_def)
  with RefreshCallback show ?thesis by (simp add: grows_map_le)
next
  case (ToggleCallback key i isHidden)
  let ?g1 = "(fst st) \<lparr> widgetToggleStates := (widgetToggleStates (fst st))(key \<mapsto> isHidden \<noteq> Some True) \<rparr>"
  have "grows ?g1 (fst (toggleWidget cs ?g1 (snd st) (Some i) (\<not> isHidden \<noteq> Some True)))"
    using toggleWidget_stable [of ?g1 "snd st" cs "Some i"] by (simp add: stable_def)
  then have "origProps ?g1 \<subseteq>\<^sub>m origProps (fst (toggleWidget cs ?g1 (snd st) (Some i) (\<not> isHidden \<noteq> Some True)))"
    by (rule grows_map_le)
  with ToggleCallback show ?thesis by (simp add: Let_def)
qed

lemma onNode_menuCallback_keeps:
  "origProps (fst s) \<subseteq>\<^sub>m origProps (fst (onNode k (menuCallback cs cb) s))"
  using menuCallback_keeps [of "(fst s, snd s ! k)" cs cb]
  by (simp add: onNode_def Let_def)

lemma step_keeps: "origProps (fst s) \<subseteq>\<^sub>m origProps (fst (step cs s ev))"
proof (cases ev)
  case (NodeCreated k)
  then show ?thesis by (simp add: onNode_keeps nodeCreated_stable)
next
  case (Configure k)
  then show ?thesis by (simp add: onNode_keeps onConfigure_stable)
next
  case (AfterGraphConfigured k)
  then show ?thesis by (simp add: onNode_keeps onAfterGraphConfigured_stable)
next
  case (ConnectionsChange k index)
  then show ?thesis by (simp add: onNode_keeps onConnectionsChange_stable)
next
  case (WidgetCallback k i)
  then show ?thesis by (simp add: onNode_keeps widgetCallback_stable)
next
  case (MenuCallback k cb)
  then show ?thesis by (simp add: onNode_menuCallback_keeps)
next
  case (DefaultHideSetting nm v)
  have "grows ((fst s) \<lparr> DEFAULT_WIDGET_STATES := (DEFAULT_WIDGET_STATES (fst s))(nm \<mapsto> v) \<rparr>)
     (fst (defaultHideOnChange cs nm v s))"
    unfolding defaultHideOnChange_def by (rule forNodes_grows) (rule defaultHideNode_stable)
  from grows_map_le [OF this] DefaultHideSetting show ?thesis by simp
next
  case (EnableHidingSetting v)
  have "grows ((fst s) \<lparr> ENABLE_WIDGET_HIDING := v \<rparr>) (fst (enableHidingOnChange cs v s))"
    unfolding enableHidingOnChange_def by (rule forNodes_grows) (rule enableHidingNode_stable)
  from grows_map_le [OF this] EnableHidingSetting show ?thesis by simp
next
  case (HostChange f)
  then show ?thesis by simp
qed

lemma run_keeps: "origProps (fst s) \<subseteq>\<^sub>m origProps (fst (run cs s events))"
proof (induction events arbitrary: s)
  case Nil
  show ?case by (simp add: run_def)
next
  case (Cons ev events)
  have "origProps (fst s) \<subseteq>\<^sub>m origProps (fst (step cs s ev))" by (rule step_keeps)
  moreover have "origProps (fst (step cs s ev)) \<subseteq>\<^sub>m origProps (fst (run cs (step cs s ev) events))"
    by (rule Cons.IH)
  ultimately show ?case by (simp add: run_def) (rule map_le_trans)
qed

lemma run_keeps_entry:
  "origProps (fst s) nm = Some e \<Longrightarrow> origProps (fst (run cs s events)) nm = Some e"
  using run_keeps [of s cs events] by (auto simp: map_le_def dom_def)

section \<open>The store of original widget states\<close>

lemma onNode_toggle_captures:
  assumes "k < length nodes" "i < length (n_widgets (nodes ! k))"
    and "origProps g (w_name (n_widgets (nodes ! k) ! i)) = None"
  shows "origProps (fst (onNode k (\<lambda>st. toggleWidget cs (fst st) (snd st) (Some i) s) (g, nodes)))
           (w_name (n_widgets (nodes ! k) ! i))
         = Some \<lparr> origType = w_type (n_widgets (nodes ! k) ! i),
                  origComputeSize = w_computeSize (n_widgets (nodes ! k) ! i) \<rparr>"
  using assms
  by (simp add: onNode_def Let_def toggleWidget_fst captured_def origEntry_def)

lemma exampleRun_eval:
  "length (snd exampleRun) = 2"
  "length (n_widgets (snd exampleRun ! 1)) = 6"
  "w_name (n_widgets (snd exampleRun ! 1) ! 1) = ''alpha''"
  "w_type (n_widgets (snd exampleRun ! 1) ! 1) = ''number''"
  "w_type (n_widgets (snd exampleRun ! 1) ! 5) = ''RES4LYF_hidden''"
  "widgetToggleStates (fst exampleRun) ''12_extra_options'' = Some True"
  by (simp_all add: exampleRun_def run_def onNode_def Let_def toggleWidget_def exampleNoise_def
      exampleSampler_def newNode_def newWidget_def hidingOn_def initialGlobals_def HIDDEN_TAG_def)

text \<open>
  Claim C10. \<^verbatim>\<open>origProps\<close> is keyed by the widget's name alone and shared by all nodes.
  When a widget is toggled while \<^verbatim>\<open>origProps\<close> has no entry for its name, the entry
  becomes that widget's type and \<^verbatim>\<open>computeSize\<close>. Whatever the extension does afterwards
  (any events, on any nodes of a graph the host may change in between), the entry stays
  what it is, as does every other entry; and every later call of \<^verbatim>\<open>toggleWidget\<close> that
  shows a widget of that name, on any node, gives it the type and \<^verbatim>\<open>computeSize\<close> of
  the widget captured first.
\<close>

theorem origProps_first_capture_kept:
  assumes "k < length nodes" and "i < length (n_widgets (nodes ! k))"
    and "origProps g (w_name (n_widgets (nodes ! k) ! i)) = None"
    and "s2 = run cs (onNode k (\<lambda>st. toggleWidget cs (fst st) (snd st) (Some i) shouldShow)
                            (g, nodes)) events"
    and "k' < length (snd s2)" and "j < length (n_widgets (snd s2 ! k'))"
    and "w_name (n_widgets (snd s2 ! k') ! j) = w_name (n_widgets (nodes ! k) ! i)"
    and "shouldShow' \<or> \<not> ENABLE_WIDGET_HIDING (fst s2)"
  shows "origProps (fst s2) (w_name (n_widgets (nodes ! k) ! i)) =
           Some \<lparr> origType = w_type (n_widgets (nodes ! k) ! i),
                  origComputeSize = w_computeSize (n_widgets (nodes ! k) ! i) \<rparr> \<and>
         w_type (n_widgets (snd (toggleWidget cs (fst s2) (snd s2 ! k') (Some j) shouldShow')) ! j)
           = w_type (n_widgets (nodes ! k) ! i) \<and>
         w_computeSize (n_widgets (snd (toggleWidget cs (fst s2) (snd s2 ! k') (Some j) shouldShow')) ! j)
           = w_computeSize (n_widgets (nodes ! k) ! i) \<and>
         (\<forall>nm e later. origProps (fst s2) nm = Some e \<longrightarrow>
                        origProps (fst (run cs s2 later)) nm = Some e)"
proof -
  let ?w = "n_widgets (nodes ! k) ! i"
  let ?e = "\<lparr> origType = w_type ?w, origComputeSize = w_computeSize ?w \<rparr>"
  have "origProps (fst (onNode k (\<lambda>st. toggleWidget cs (fst st) (snd st) (Some i) shouldShow)
                            (g, nodes))) (w_name ?w) = Some ?e"
    using assms(1,2,3) by (rule onNode_toggle_captures)
  then have e2: "origProps (fst s2) (w_name ?w) = Some ?e"
    unfolding assms(4) by (rule run_keeps_entry)
  then have "origEntry (fst s2) (n_widgets (snd s2 ! k') ! j) = ?e"
    by (simp add: origEntry_def assms(7))
  then have "n_widgets (snd (toggleWidget cs (fst s2) (snd s2 ! k') (Some j) shouldShow')) ! j
      = toggled ?e (ENABLE_WIDGET_HIDING (fst s2)) (n_widgets (snd s2 ! k') ! j) shouldShow'"
    by (simp add: toggleWidget_nth [OF assms(6)])
  with assms(8) e2 show ?thesis
    by (auto simp: toggled_def run_keeps_entry)
qed

theorem origProps_first_capture_kept_witness:
  "0 < length [exampleNoise, exampleSampler] \<and>
   1 < length (n_widgets ([exampleNoise, exampleSampler] ! 0)) \<and>
   origProps hidingOn (w_name (n_widgets ([exampleNoise, exampleSampler] ! 0) ! 1)) = None \<and>
   1 < length (snd exampleRun) \<and>
   1 < length (n_widgets (snd exampleRun ! 1)) \<and>
   w_name (n_widgets (snd exampleRun ! 1) ! 1) = ''alpha'' \<and>
   w_type (n_widgets (snd exampleRun ! 1) ! 1) = ''number'' \<and>
   origProps (fst exampleRun) ''alpha'' = Some \<lparr> origType = ''slider'', origComputeSize = None \<rparr> \<and>
   w_type (n_widgets (snd (toggleWidget exampleSize (fst exampleRun) (snd exampleRun ! 1) (Some 1) True)) ! 1)
     = ''slider''"
proof -
  have a: "0 < length [exampleNoise, exampleSampler]" by simp
  have b: "1 < length (n_widgets ([exampleNoise, exampleSampler] ! 0))"
    by (simp add: exampleNoise_def newNode_def)
  have n: "w_name (n_widgets ([exampleNoise, exampleSampler] ! 0) ! 1) = ''alpha''"
    by (simp add: exampleNoise_def newNode_def newWidget_def)
  have t: "w_type (n_widgets ([exampleNoise, exampleSampler] ! 0) ! 1) = ''slider''"
        "w_computeSize (n_widgets ([exampleNoise, exampleSampler] ! 0) ! 1) = None"
    by (simp_all add: exampleNoise_def newNode_def newWidget_def)
  have c: "origProps hidingOn (w_name (n_widgets ([exampleNoise, exampleSampler] ! 0) ! 1)) = None"
    by (simp add: hidingOn_def initialGlobals_def)
  have d: "1 < length (snd exampleRun)" using exampleRun_eval(1) by simp
  have e: "1 < length (n_widgets (snd exampleRun ! 1))" using exampleRun_eval(2) by simp
  have f: "w_name (n_widgets (snd exampleRun ! 1) ! 1)
      = w_name (n_widgets ([exampleNoise, exampleSampler] ! 0) ! 1)"
    unfolding n by (rule exampleRun_eval)
  from origProps_first_capture_kept [OF a b c exampleRun_def d e f disjI1, of True]
    a b c d e exampleRun_eval(3,4)
  show ?thesis unfolding n t by simp
qed

section \<open>What a sequence of toggles leaves at one widget\<close>

lemma basedOn_start: "i < length (n_widgets node) \<Longrightarrow> basedOn (g, node) i (n_widgets node ! i)"
  by (simp add: basedOn_def)

lemma basedOn_name: "basedOn st i w \<Longrightarrow> w_name (n_widgets (snd st) ! i) = w_name w"
  by (auto simp: basedOn_def)

lemma decidedAt_basedOn: "decidedAt st i w s \<Longrightarrow> basedOn st i w"
  by (auto simp: decidedAt_def basedOn_def)

lemma basedOn_toggled:
  "basedOn st i w \<Longrightarrow> toggled e en (n_widgets (snd st) ! i) s = toggled e en w s"
  by (auto simp: basedOn_def)

lemma toggleWidget_other:
  assumes "wi \<noteq> Some i"
  shows "n_widgets (snd (toggleWidget cs g node wi s)) ! i = n_widgets node ! i"
proof (cases wi)
  case None
  then show ?thesis by simp
next
  case (Some j)
  with assms have ji: "j \<noteq> i" by simp
  show ?thesis
  proof (cases "j < length (n_widgets node)")
    case True
    with ji show ?thesis unfolding Some by (simp add: toggleWidget_widgets)
  next
    case False
    then show ?thesis unfolding Some by (simp add: toggleWidget_outside)
  qed
qed

lemma toggleWidget_length [simp]:
  "length (n_widgets (snd (toggleWidget cs g node wi s))) = length (n_widgets node)"
  using toggleWidget_stable [of g node cs wi s]
  by (simp add: stable_def sameShape_length)

lemma toggleWidget_ENABLE [simp]:
  "ENABLE_WIDGET_HIDING (fst (toggleWidget cs g node wi s)) = ENABLE_WIDGET_HIDING g"
  using toggleWidget_stable [of g node cs wi s]
  by (simp add: stable_def grows_def)

lemma toggleWidget_keeps_entry:
  "origProps g nm = Some e \<Longrightarrow> origProps (fst (toggleWidget cs g node wi s)) nm = Some e"
  using toggleWidget_stable [of g node cs wi s]
  by (auto simp: stable_def dest: grows_origProps)

lemma basedOn_toggleWidget:
  assumes "basedOn st i w"
  shows "basedOn (toggleWidget cs (fst st) (snd st) wi s) i w"
proof (cases "wi = Some i")
  case True
  from assms have i: "i < length (n_widgets (snd st))" by (simp add: basedOn_def)
  have "n_widgets (snd (toggleWidget cs (fst st) (snd st) (Some i) s)) ! i
      = toggled (origEntry (fst st) (n_widgets (snd st) ! i)) (ENABLE_WIDGET_HIDING (fst st)) w s"
    by (simp add: toggleWidget_nth [OF i] basedOn_toggled [OF assms])
  with i True show ?thesis unfolding basedOn_def by auto
next
  case False
  with assms show ?thesis by (simp add: basedOn_def toggleWidget_other)
qed

lemma decidedAt_toggleWidget_same:
  assumes "basedOn st i w"
  shows "decidedAt (toggleWidget cs (fst st) (snd st) (Some i) s) i w s"
proof -
  from assms have i: "i < length (n_widgets (snd st))" by (simp add: basedOn_def)
  let ?cur = "n_widgets (snd st) ! i"
  have nm: "w_name ?cur = w_name w" using assms by (rule basedOn_name)
  have "origProps (fst (toggleWidget cs (fst st) (snd st) (Some i) s)) (w_name w)
      = Some (origEntry (fst st) ?cur)"
    by (simp add: toggleWidget_fst [OF i] captured_def nm)
  moreover have "n_widgets (snd (toggleWidget cs (fst st) (snd st) (Some i) s)) ! i
      = toggled (origEntry (fst st) ?cur) (ENABLE_WIDGET_HIDING (fst st)) w s"
    by (simp add: toggleWidget_nth [OF i] basedOn_toggled [OF assms])
  ultimately show ?thesis using i by (simp add: decidedAt_def)
qed

lemma decidedAt_toggleWidget_other:
  assumes "decidedAt st i w s" "wi \<noteq> Some i"
  shows "decidedAt (toggleWidget cs (fst st) (snd st) wi s') i w s"
  using assms
  by (auto simp: decidedAt_def toggleWidget_other toggleWidget_keeps_entry)

lemma decidedAt_toggleWidget:
  assumes "decidedAt st i w s" "wi = Some i \<longrightarrow> s' = s"
  shows "decidedAt (toggleWidget cs (fst st) (snd st) wi s') i w s"
proof (cases "wi = Some i")
  case True
  with assms(2) decidedAt_toggleWidget_same [OF decidedAt_basedOn [OF assms(1)], of cs s]
  show ?thesis by simp
next
  case False
  with assms(1) show ?thesis by (rule decidedAt_toggleWidget_other)
qed

lemma findWidget_name:
  "findWidget node nm = Some j \<Longrightarrow> j < length (n_widgets node) \<and> w_name (n_widgets node ! j) = nm"
  by (auto simp: findWidget_def dest: findIndex_Some)

lemma stable_findWidget: "stable st st' \<Longrightarrow> findWidget (snd st') nm = findWidget (snd st) nm"
  by (simp add: stable_def sameShape_findWidget)

text \<open>One loop of toggles with a fixed decision.\<close>

lemma basedOn_toggleTarget: "basedOn st i w \<Longrightarrow> basedOn (toggleTarget cs s st nm) i w"
  by (simp add: toggleTarget_def basedOn_toggleWidget)

lemma decidedAt_toggleTarget: "decidedAt st i w s \<Longrightarrow> decidedAt (toggleTarget cs s st nm) i w s"
  by (simp add: toggleTarget_def decidedAt_toggleWidget)

lemma decidedAt_toggleTarget_other:
  assumes "decidedAt st i w s" "nm \<noteq> w_name w"
  shows "decidedAt (toggleTarget cs s' st nm) i w s"
proof -
  have "findWidget (snd st) nm \<noteq> Some i"
  proof
    assume "findWidget (snd st) nm = Some i"
    then have "w_name (n_widgets (snd st) ! i) = nm" by (simp add: findWidget_name)
    with basedOn_name [OF decidedAt_basedOn [OF assms(1)]] assms(2) show False by simp
  qed
  with assms(1) show ?thesis
    unfolding toggleTarget_def by (rule decidedAt_toggleWidget_other)
qed

lemma toggleFound_eq: "toggleFound cs s st nm = toggleTarget cs s st nm"
  by (cases "findWidget (snd st) nm") (simp_all add: toggleFound_def toggleTarget_def)

lemma toggleFound_eq_fun: "toggleFound cs s = toggleTarget cs s"
  by (intro ext) (rule toggleFound_eq)

lemma foldl_basedOn:
  assumes "\<And>st x. basedOn st i w \<Longrightarrow> basedOn (f st x) i w" "basedOn st i w"
  shows "basedOn (foldl f st xs) i w"
  using assms(2) by (induction xs arbitrary: st) (simp_all add: assms(1))

lemma foldl_decidedAt:
  assumes "\<And>st x. x \<in> set xs \<Longrightarrow> decidedAt st i w s \<Longrightarrow> decidedAt (f st x) i w s"
    and "decidedAt st i w s"
  shows "decidedAt (foldl f st xs) i w s"
  using assms by (induction xs arbitrary: st) simp_all

lemma toggles_decide:
  assumes "nm \<in> set names" "findWidget (snd st) nm = Some i" "basedOn st i w"
  shows "decidedAt (foldl (toggleTarget cs s) st names) i w s"
  using assms
proof (induction names arbitrary: st)
  case Nil
  then show ?case by simp
next
  case (Cons x xs)
  show ?case
  proof (cases "x = nm")
    case True
    have "decidedAt (toggleTarget cs s st x) i w s"
      using Cons.prems(2,3) True by (simp add: toggleTarget_def decidedAt_toggleWidget_same)
    then have "decidedAt (foldl (toggleTarget cs s) (toggleTarget cs s st x) xs) i w s"
      by (rule foldl_decidedAt [where f = "toggleTarget cs s", rotated])
        (erule decidedAt_toggleTarget)
    then show ?thesis by simp
  next
    case False
    with Cons.prems(1) have "nm \<in> set xs" by simp
    moreover have "findWidget (snd (toggleTarget cs s st x)) nm = Some i"
      using Cons.prems(2) by (simp add: stable_findWidget [OF toggleTarget_stable])
    moreover have "basedOn (toggleTarget cs s st x) i w"
      using Cons.prems(3) by (rule basedOn_toggleTarget)
    ultimately show ?thesis using Cons.IH by simp
  qed
qed

lemma toggles_leave:
  assumes "decidedAt st i w s" "w_name w \<notin> set names"
  shows "decidedAt (foldl (toggleTarget cs s') st names) i w s"
proof (rule foldl_decidedAt [OF _ assms(1)])
  fix st' x
  assume "x \<in> set names" "decidedAt st' i w s"
  with assms(2) show "decidedAt (toggleTarget cs s' st' x) i w s"
    by (intro decidedAt_toggleTarget_other) auto
qed

section \<open>Value-based rules\<close>

lemma basedOn_handleGroup: "basedOn st i w \<Longrightarrow> basedOn (handleGroup cs st grp) i w"
  unfolding handleGroup_def by (rule foldl_basedOn) (rule basedOn_toggleTarget)

lemma handleGroup_decides:
  assumes "nm \<in> set (widgetsToShow grp)" "findWidget (snd st) nm = Some i" "basedOn st i w"
  shows "decidedAt (handleGroup cs st grp) i w (showWidgets (snd st) grp)"
  unfolding handleGroup_def using assms by (rule toggles_decide)

lemma handleGroup_leaves:
  assumes "decidedAt st i w s" "w_name w \<notin> set (widgetsToShow grp)"
  shows "decidedAt (handleGroup cs st grp) i w s"
  unfolding handleGroup_def using assms by (rule toggles_leave)

lemma groups_decide:
  assumes "\<forall>later \<in> set after. nm \<notin> set (widgetsToShow later)"
    and "nm \<in> set (widgetsToShow grp)"
    and "findWidget node nm = Some i"
  shows "decidedAt (foldl (handleGroup cs) (g, node) (before @ grp # after)) i
           (n_widgets node ! i) (showWidgets node grp)"
proof -
  let ?w = "n_widgets node ! i"
  let ?st1 = "foldl (handleGroup cs) (g, node) before"
  from assms(3) have i: "i < length (n_widgets node)" and nm: "w_name ?w = nm"
    by (simp_all add: findWidget_name)
  have st1: "stable (g, node) ?st1" by (rule foldl_stable) (rule handleGroup_stable)
  have b1: "basedOn ?st1 i ?w"
    by (rule foldl_basedOn [OF basedOn_handleGroup basedOn_start [OF i]])
  have f1: "findWidget (snd ?st1) nm = Some i"
    using assms(3) stable_findWidget [OF st1] by simp
  have s1: "showWidgets (snd ?st1) grp = showWidgets node grp"
    using st1 by (simp add: stable_def sameShape_showWidgets)
  have "decidedAt (handleGroup cs ?st1 grp) i ?w (showWidgets node grp)"
    using handleGroup_decides [OF assms(2) f1 b1, of cs] s1 by simp
  then have "decidedAt (foldl (handleGroup cs) (handleGroup cs ?st1 grp) after) i ?w
      (showWidgets node grp)"
  proof (rule foldl_decidedAt [where f = "handleGroup cs", rotated])
    fix st x
    assume "x \<in> set after" "decidedAt st i ?w (showWidgets node grp)"
    with assms(1) nm show "decidedAt (handleGroup cs st x) i ?w (showWidgets node grp)"
      by (intro handleGroup_leaves) auto
  qed
  then show ?thesis by simp
qed

lemma showWidgets_iff:
  "showWidgets node grp \<longleftrightarrow>
     (\<exists>c \<in> set (inputWidgetNames grp). \<exists>j. findWidget node c = Some j \<and>
        w_value (n_widgets node ! j) \<in> set (independentValues grp))"
  by (auto simp: showWidgets_def list_ex_iff split: option.splits)

lemma nodeConfigs_dependentWidgets:
  assumes "nodeConfigs cls = Some config" "dependentWidgets config = Some groups"
  shows "groups = commonDependentWidgets"
  using assms
  by (auto simp: nodeConfigs_def createNodeConfig_def emptyConfig_def split: if_splits)

lemma commonDependentWidgets_split:
  assumes "grp \<in> set commonDependentWidgets" "nm \<in> set (widgetsToShow grp)"
  shows "\<exists>before after. commonDependentWidgets = before @ grp # after \<and>
           (\<forall>later \<in> set after. nm \<notin> set (widgetsToShow later))"
proof -
  let ?g1 = "commonDependentWidgets ! 0" and ?g2 = "commonDependentWidgets ! 1"
  have l: "commonDependentWidgets = [?g1, ?g2]" by (simp add: commonDependentWidgets_def)
  have t1: "widgetsToShow ?g1 = [''alpha'', ''k'']" and t2: "widgetsToShow ?g2 = [''multistep'']"
    by (simp_all add: commonDependentWidgets_def)
  from assms(1) l have "grp = ?g1 \<or> grp = ?g2"
    by (metis insert_iff list.simps(15) empty_iff empty_set)
  then show ?thesis
  proof
    assume g: "grp = ?g1"
    with assms(2) t1 t2 have "\<forall>later \<in> set [?g2]. nm \<notin> set (widgetsToShow later)" by auto
    moreover have "commonDependentWidgets = [] @ grp # [?g2]" using l g by simp
    ultimately show ?thesis by blast
  next
    assume g: "grp = ?g2"
    have "commonDependentWidgets = [?g1] @ grp # []" using l g by simp
    then show ?thesis by (metis empty_iff empty_set)
  qed
qed

lemma example_configs:
  "nodeConfigs (n_comfyClass exampleSampler) =
     Some \<lparr> optionalInputWidgets = Some [guideGroup, maskGroup],
            dependentWidgets = Some commonDependentWidgets \<rparr>"
  "nodeConfigs (n_comfyClass exampleNoise) =
     Some \<lparr> optionalInputWidgets = None, dependentWidgets = Some commonDependentWidgets \<rparr>"
  by (simp_all add: exampleSampler_def exampleNoise_def newNode_def nodeConfigs_def
      createNodeConfig_def emptyConfig_def nodesWithCommonConfig_def)

text \<open>
  Claim C1. On a node whose class has an entry in \<^verbatim>\<open>nodeConfigs\<close>, the handler made by
  \<^verbatim>\<open>createGenericHandler\<close> leaves every widget named in a group's \<^verbatim>\<open>widgetsToShow\<close>
  toggled with the decision "shown" exactly when some name of the group's
  \<^verbatim>\<open>inputWidgetNames\<close> resolves to a widget of the node whose value is one of the group's
  \<^verbatim>\<open>independentValues\<close>: the widget's flag \<^verbatim>\<open>_RES4LYF_hidden\<close> is the negation of that, and
  the widget is in the state \<^verbatim>\<open>toggleWidget\<close> gives it for that decision. A controlling
  name that resolves to no widget adds nothing to the disjunction.
\<close>

theorem createGenericHandler_sets_targets:
  assumes "nodeConfigs (n_comfyClass node) = Some config"
    and "dependentWidgets config = Some groups"
    and "grp \<in> set groups"
    and "widgetName \<in> set (widgetsToShow grp)"
    and "findWidget node widgetName = Some i"
  shows "let st' = createGenericHandler cs (dependentWidgets config) (g, node);
             shown = (\<exists>c \<in> set (inputWidgetNames grp). \<exists>j. findWidget node c = Some j \<and>
                        w_value (n_widgets node ! j) \<in> set (independentValues grp))
         in w_RES4LYF_hidden (n_widgets (snd st') ! i) = Some (\<not> shown) \<and>
            (\<exists>e. origProps (fst st') widgetName = Some e \<and>
                 n_widgets (snd st') ! i =
                   toggled e (ENABLE_WIDGET_HIDING g) (n_widgets node ! i) shown)"
proof -
  from assms(1,2) have gs: "groups = commonDependentWidgets"
    by (rule nodeConfigs_dependentWidgets)
  from commonDependentWidgets_split [OF assms(3) [unfolded gs] assms(4)]
  obtain before after where sp: "commonDependentWidgets = before @ grp # after"
    "\<forall>later \<in> set after. widgetName \<notin> set (widgetsToShow later)" by blast
  have "decidedAt (foldl (handleGroup cs) (g, node) (before @ grp # after)) i
           (n_widgets node ! i) (showWidgets node grp)"
    using sp(2) assms(4,5) by (rule groups_decide)
  then have d: "decidedAt (createGenericHandler cs (dependentWidgets config) (g, node)) i
           (n_widgets node ! i) (showWidgets node grp)"
    by (simp add: createGenericHandler_def assms(2) gs sp(1) [symmetric])
  have en: "ENABLE_WIDGET_HIDING (fst (createGenericHandler cs (dependentWidgets config) (g, node)))
      = ENABLE_WIDGET_HIDING g"
    using createGenericHandler_stable [of "(g, node)" cs "dependentWidgets config"]
    by (simp add: stable_def grows_def)
  from assms(5) have "w_name (n_widgets node ! i) = widgetName" by (simp add: findWidget_name)
  with d en show ?thesis
    by (auto simp: decidedAt_def Let_def showWidgets_iff)
qed

theorem createGenericHandler_sets_targets_witness:
  "nodeConfigs (n_comfyClass exampleSampler) =
     Some \<lparr> optionalInputWidgets = Some [guideGroup, maskGroup],
            dependentWidgets = Some commonDependentWidgets \<rparr> \<and>
   commonDependentWidgets ! 0 \<in> set commonDependentWidgets \<and>
   ''alpha'' \<in> set (widgetsToShow (commonDependentWidgets ! 0)) \<and>
   findWidget exampleSampler ''alpha'' = Some 1 \<and>
   findWidget exampleNoise ''alpha'' = Some 1 \<and>
   w_value (n_widgets exampleSampler ! 0) = JStr ''fractal'' \<and>
   w_RES4LYF_hidden (n_widgets (snd (createGenericHandler exampleSize (Some commonDependentWidgets)
       (hidingOn, exampleSampler))) ! 1) = Some False \<and>
   w_type (n_widgets (snd (createGenericHandler exampleSize (Some commonDependentWidgets)
       (hidingOn, exampleSampler))) ! 1) = ''number'' \<and>
   w_value (n_widgets exampleNoise ! 0) = JStr ''gaussian'' \<and>
   w_RES4LYF_hidden (n_widgets (snd (createGenericHandler exampleSize (Some commonDependentWidgets)
       (hidingOn, exampleNoise))) ! 1) = Some True \<and>
   w_type (n_widgets (snd (createGenericHandler exampleSize (Some commonDependentWidgets)
       (hidingOn, exampleNoise))) ! 1) = ''RES4LYF_hidden''"
proof -
  let ?c1 = "\<lparr> optionalInputWidgets = Some [guideGroup, maskGroup],
            dependentWidgets = Some commonDependentWidgets \<rparr>"
  let ?c2 = "\<lparr> optionalInputWidgets = None, dependentWidgets = Some commonDependentWidgets \<rparr>"
  have d1: "dependentWidgets ?c1 = Some commonDependentWidgets"
    and d2: "dependentWidgets ?c2 = Some commonDependentWidgets" by simp_all
  have m: "commonDependentWidgets ! 0 \<in> set commonDependentWidgets"
    by (simp add: commonDependentWidgets_def)
  have t: "''alpha'' \<in> set (widgetsToShow (commonDependentWidgets ! 0))"
    by (simp add: commonDependentWidgets_def)
  have f1: "findWidget exampleSampler ''alpha'' = Some 1"
    by (simp add: findWidget_def exampleSampler_def newNode_def newWidget_def)
  have f2: "findWidget exampleNoise ''alpha'' = Some 1"
    by (simp add: findWidget_def exampleNoise_def newNode_def newWidget_def)
  have v: "w_value (n_widgets exampleSampler ! 0) = JStr ''fractal''"
      "w_value (n_widgets exampleNoise ! 0) = JStr ''gaussian''"
    by (simp_all add: exampleSampler_def exampleNoise_def newNode_def newWidget_def)
  have r1: "w_type (n_widgets (snd (createGenericHandler exampleSize (Some commonDependentWidgets)
       (hidingOn, exampleSampler))) ! 1) = ''number''"
    by (simp add: createGenericHandler_def handleGroup_def toggleTarget_def showWidgets_def
        findWidget_def toggleWidget_def Let_def commonDependentWidgets_def exampleSampler_def
        newNode_def newWidget_def hidingOn_def initialGlobals_def)
  have r2: "w_type (n_widgets (snd (createGenericHandler exampleSize (Some commonDependentWidgets)
       (hidingOn, exampleNoise))) ! 1) = ''RES4LYF_hidden''"
    by (simp add: createGenericHandler_def handleGroup_def toggleTarget_def showWidgets_def
        findWidget_def toggleWidget_def Let_def commonDependentWidgets_def exampleNoise_def
        newNode_def newWidget_def hidingOn_def initialGlobals_def HIDDEN_TAG_def)
  have s1: "(\<exists>c \<in> set (inputWidgetNames (commonDependentWidgets ! 0)).
        \<exists>j. findWidget exampleSampler c = Some j \<and>
          w_value (n_widgets exampleSampler ! j) \<in> set (independentValues (commonDependentWidgets ! 0)))"
    by (simp add: commonDependentWidgets_def findWidget_def exampleSampler_def newNode_def newWidget_def)
  have s2: "\<not> (\<exists>c \<in> set (inputWidgetNames (commonDependentWidgets ! 0)).
        \<exists>j. findWidget exampleNoise c = Some j \<and>
          w_value (n_widgets exampleNoise ! j) \<in> set (independentValues (commonDependentWidgets ! 0)))"
    by (simp add: commonDependentWidgets_def findWidget_def exampleNoise_def newNode_def newWidget_def)
  from createGenericHandler_sets_targets [OF example_configs(1) d1 m t f1,
      where cs = exampleSize and g = hidingOn]
    createGenericHandler_sets_targets [OF example_configs(2) d2 m t f2,
      where cs = exampleSize and g = hidingOn]
    s1 s2 example_configs(1) m t f1 f2 v r1 r2
  show ?thesis by (simp add: Let_def)
qed

section \<open>Connection-based rules\<close>

lemma basedOn_connectionGroup:
  "basedOn st i w \<Longrightarrow> basedOn (connectionGroup cs inputName st grp) i w"
  unfolding connectionGroup_def toggleFound_eq_fun
  by (simp add: foldl_basedOn basedOn_toggleTarget)

lemma connectionGroup_decides:
  assumes "inputName \<in> set (inputs grp)" "nm \<in> set (widgets grp)"
    "findWidget (snd st) nm = Some i" "basedOn st i w"
  shows "decidedAt (connectionGroup cs inputName st grp) i w (isAnyConnected (snd st) grp)"
  unfolding connectionGroup_def toggleFound_eq_fun
  using assms(1) toggles_decide [OF assms(2,3,4)] by simp

lemma connectionGroup_leaves:
  assumes "decidedAt st i w s" "w_name w \<notin> set (widgets grp)"
  shows "decidedAt (connectionGroup cs inputName st grp) i w s"
  unfolding connectionGroup_def toggleFound_eq_fun
  using assms by (simp add: toggles_leave)

lemma connectionGroups_decide:
  assumes "\<forall>later \<in> set after. nm \<notin> set (widgets later)"
    and "inputName \<in> set (inputs grp)"
    and "nm \<in> set (widgets grp)"
    and "findWidget node nm = Some i"
  shows "decidedAt (foldl (connectionGroup cs inputName) (g, node) (before @ grp # after)) i
           (n_widgets node ! i) (isAnyConnected node grp)"
proof -
  let ?w = "n_widgets node ! i"
  let ?st1 = "foldl (connectionGroup cs inputName) (g, node) before"
  from assms(4) have i: "i < length (n_widgets node)" and nm: "w_name ?w = nm"
    by (simp_all add: findWidget_name)
  have st1: "stable (g, node) ?st1" by (rule foldl_stable) (rule connectionGroup_stable)
  have b1: "basedOn ?st1 i ?w"
    by (rule foldl_basedOn [OF basedOn_connectionGroup basedOn_start [OF i]])
  have f1: "findWidget (snd ?st1) nm = Some i"
    using assms(4) stable_findWidget [OF st1] by simp
  have s1: "isAnyConnected (snd ?st1) grp = isAnyConnected node grp"
    using st1 by (simp add: stable_def sameShape_isAnyConnected)
  have "decidedAt (connectionGroup cs inputName ?st1 grp) i ?w (isAnyConnected node grp)"
    using connectionGroup_decides [OF assms(2,3) f1 b1, of cs] s1 by simp
  then have "decidedAt (foldl (connectionGroup cs inputName)
      (connectionGroup cs inputName ?st1 grp) after) i ?w (isAnyConnected node grp)"
  proof (rule foldl_decidedAt [where f = "connectionGroup cs inputName", rotated])
    fix st x
    assume "x \<in> set after" "decidedAt st i ?w (isAnyConnected node grp)"
    with assms(1) nm show "decidedAt (connectionGroup cs inputName st x) i ?w (isAnyConnected node grp)"
      by (intro connectionGroup_leaves) auto
  qed
  then show ?thesis by simp
qed

lemma isAnyConnected_iff:
  "isAnyConnected node grp \<longleftrightarrow>
     (\<exists>nm \<in> set (inputs grp). \<exists>j. findInput node nm = Some j \<and>
        i_link (n_inputs node ! j) \<noteq> LinkNull)"
  by (auto simp: isAnyConnected_def list_ex_iff split: option.splits)

lemma nodeConfigs_optionalInputWidgets:
  assumes "nodeConfigs cls = Some config" "optionalInputWidgets config = Some groups"
  shows "groups = [guideGroup, maskGroup] \<or> groups = [guideGroup]"
  using assms
  by (auto simp: nodeConfigs_def createNodeConfig_def emptyConfig_def split: if_splits)

lemma optional_groups_split:
  assumes "groups = [guideGroup, maskGroup] \<or> groups = [guideGroup]"
    and "grp \<in> set groups" "nm \<in> set (widgets grp)"
  shows "\<exists>before after. groups = before @ grp # after \<and>
           (\<forall>later \<in> set after. nm \<notin> set (widgets later))"
proof -
  have w1: "widgets guideGroup = [''latent_guide_weight'', ''guide_mode'']"
    and w2: "widgets maskGroup = [''rescale_floor'']"
    by (simp_all add: guideGroup_def maskGroup_def)
  from assms(1,2) consider
      (a) "groups = [guideGroup, maskGroup]" "grp = guideGroup"
    | (b) "groups = [guideGroup, maskGroup]" "grp = maskGroup"
    | (c) "groups = [guideGroup]" "grp = guideGroup"
    by auto
  then show ?thesis
  proof cases
    case a
    with assms(3) w1 w2 have "\<forall>later \<in> set [maskGroup]. nm \<notin> set (widgets later)" by auto
    moreover have "groups = [] @ grp # [maskGroup]" using a by simp
    ultimately show ?thesis by blast
  next
    case b
    then have "groups = [guideGroup] @ grp # []" by simp
    then show ?thesis by (metis empty_iff empty_set)
  next
    case c
    then have "groups = [] @ grp # []" by simp
    then show ?thesis by (metis empty_iff empty_set)
  qed
qed

lemma optional_groups_names:
  assumes "groups = [guideGroup, maskGroup] \<or> groups = [guideGroup]"
    and "grp \<in> set groups" "nm \<in> set (inputs grp)"
  shows "nm \<noteq> []"
  using assms by (auto simp: guideGroup_def maskGroup_def)

lemma exampleSamplerUnlinked_config:
  "nodeConfigs (n_comfyClass exampleSamplerUnlinked) =
     Some \<lparr> optionalInputWidgets = Some [guideGroup, maskGroup],
            dependentWidgets = Some commonDependentWidgets \<rparr>"
  using example_configs(1) by (simp add: exampleSamplerUnlinked_def)

text \<open>
  Claim C2. On a node whose class has optional-input groups, when the connection hook
  reports slot \<open>index\<close> and the input at that slot is named in a group's \<^verbatim>\<open>inputs\<close>,
  \<^verbatim>\<open>handleConnectionChange\<close> leaves every widget named in that group's \<^verbatim>\<open>widgets\<close>
  toggled with the decision "shown" exactly when some name of the group's \<^verbatim>\<open>inputs\<close>
  (any of them, not only the one that changed) resolves to an input of the node whose
  \<^verbatim>\<open>link\<close> is not \<^verbatim>\<open>null\<close>.
\<close>

theorem handleConnectionChange_sets_group:
  assumes "nodeConfigs (n_comfyClass node) = Some config"
    and "optionalInputWidgets config = Some groups"
    and "grp \<in> set groups"
    and "index < length (n_inputs node)"
    and "i_name (n_inputs node ! index) \<in> set (inputs grp)"
    and "widgetName \<in> set (widgets grp)"
    and "findWidget node widgetName = Some i"
  shows "let st' = handleConnectionChange cs index (g, node);
             connected = (\<exists>nm \<in> set (inputs grp). \<exists>j. findInput node nm = Some j \<and>
                            i_link (n_inputs node ! j) \<noteq> LinkNull)
         in w_RES4LYF_hidden (n_widgets (snd st') ! i) = Some (\<not> connected) \<and>
            (\<exists>e. origProps (fst st') widgetName = Some e \<and>
                 n_widgets (snd st') ! i =
                   toggled e (ENABLE_WIDGET_HIDING g) (n_widgets node ! i) connected)"
proof -
  let ?nm = "i_name (n_inputs node ! index)"
  from assms(1,2) have gs: "groups = [guideGroup, maskGroup] \<or> groups = [guideGroup]"
    by (rule nodeConfigs_optionalInputWidgets)
  from optional_groups_split [OF gs assms(3,6)]
  obtain before after where sp: "groups = before @ grp # after"
    "\<forall>later \<in> set after. widgetName \<notin> set (widgets later)" by blast
  have ne: "?nm \<noteq> []" using gs assms(3,5) by (rule optional_groups_names)
  have "decidedAt (foldl (connectionGroup cs ?nm) (g, node) (before @ grp # after)) i
           (n_widgets node ! i) (isAnyConnected node grp)"
    using sp(2) assms(5,6,7) by (rule connectionGroups_decide)
  moreover have "handleConnectionChange cs index (g, node)
      = foldl (connectionGroup cs ?nm) (g, node) (before @ grp # after)"
    using assms(1,2,4) ne by (simp add: handleConnectionChange_def Let_def sp(1))
  ultimately have d: "decidedAt (handleConnectionChange cs index (g, node)) i
           (n_widgets node ! i) (isAnyConnected node grp)" by simp
  have en: "ENABLE_WIDGET_HIDING (fst (handleConnectionChange cs index (g, node)))
      = ENABLE_WIDGET_HIDING g"
    using handleConnectionChange_stable [of "(g, node)" cs index]
    by (simp add: stable_def grows_def)
  from assms(7) have "w_name (n_widgets node ! i) = widgetName" by (simp add: findWidget_name)
  with d en show ?thesis
    by (auto simp: decidedAt_def Let_def isAnyConnected_iff)
qed

theorem handleConnectionChange_sets_group_witness:
  "nodeConfigs (n_comfyClass exampleSampler) =
     Some \<lparr> optionalInputWidgets = Some [guideGroup, maskGroup],
            dependentWidgets = Some commonDependentWidgets \<rparr> \<and>
   guideGroup \<in> set [guideGroup, maskGroup] \<and>
   0 < length (n_inputs exampleSampler) \<and>
   i_name (n_inputs exampleSampler ! 0) \<in> set (inputs guideGroup) \<and>
   ''guide_mode'' \<in> set (widgets guideGroup) \<and>
   findWidget exampleSampler ''guide_mode'' = Some 4 \<and>
   findWidget exampleSamplerUnlinked ''guide_mode'' = Some 4 \<and>
   map i_link (n_inputs exampleSampler) = [LinkNull, LinkId 5] \<and>
   w_RES4LYF_hidden (n_widgets (snd (handleConnectionChange exampleSize 0
       (hidingOn, exampleSampler))) ! 4) = Some False \<and>
   w_type (n_widgets (snd (handleConnectionChange exampleSize 0
       (hidingOn, exampleSampler))) ! 4) = ''combo'' \<and>
   map i_link (n_inputs exampleSamplerUnlinked) = [LinkNull, LinkNull] \<and>
   w_RES4LYF_hidden (n_widgets (snd (handleConnectionChange exampleSize 0
       (hidingOn, exampleSamplerUnlinked))) ! 4) = Some True \<and>
   w_type (n_widgets (snd (handleConnectionChange exampleSize 0
       (hidingOn, exampleSamplerUnlinked))) ! 4) = ''RES4LYF_hidden''"
proof -
  let ?c = "\<lparr> optionalInputWidgets = Some [guideGroup, maskGroup],
            dependentWidgets = Some commonDependentWidgets \<rparr>"
  have o: "optionalInputWidgets ?c = Some [guideGroup, maskGroup]" by simp
  have m: "guideGroup \<in> set [guideGroup, maskGroup]" by simp
  have l: "0 < length (n_inputs exampleSampler)" "0 < length (n_inputs exampleSamplerUnlinked)"
    by (simp_all add: exampleSamplerUnlinked_def exampleSampler_def newNode_def)
  have n: "i_name (n_inputs exampleSampler ! 0) \<in> set (inputs guideGroup)"
      "i_name (n_inputs exampleSamplerUnlinked ! 0) \<in> set (inputs guideGroup)"
    by (simp_all add: exampleSamplerUnlinked_def exampleSampler_def newNode_def guideGroup_def)
  have t: "''guide_mode'' \<in> set (widgets guideGroup)" by (simp add: guideGroup_def)
  have f: "findWidget exampleSampler ''guide_mode'' = Some 4"
      "findWidget exampleSamplerUnlinked ''guide_mode'' = Some 4"
    by (simp_all add: findWidget_def exampleSamplerUnlinked_def exampleSampler_def newNode_def
        newWidget_def)
  have k: "map i_link (n_inputs exampleSampler) = [LinkNull, LinkId 5]"
      "map i_link (n_inputs exampleSamplerUnlinked) = [LinkNull, LinkNull]"
    by (simp_all add: exampleSamplerUnlinked_def exampleSampler_def newNode_def)
  have s1: "(\<exists>nm \<in> set (inputs guideGroup). \<exists>j. findInput exampleSampler nm = Some j \<and>
        i_link (n_inputs exampleSampler ! j) \<noteq> LinkNull)"
    by (simp add: guideGroup_def findInput_def exampleSampler_def newNode_def)
  have s2: "\<not> (\<exists>nm \<in> set (inputs guideGroup). \<exists>j. findInput exampleSamplerUnlinked nm = Some j \<and>
        i_link (n_inputs exampleSamplerUnlinked ! j) \<noteq> LinkNull)"
    by (simp add: guideGroup_def findInput_def exampleSamplerUnlinked_def exampleSampler_def newNode_def)
  have r1: "w_type (n_widgets (snd (handleConnectionChange exampleSize 0
       (hidingOn, exampleSampler))) ! 4) = ''combo''"
    by (simp add: handleConnectionChange_def connectionGroup_def toggleFound_def isAnyConnected_def
        findWidget_def findInput_def toggleWidget_def Let_def nodeConfigs_def createNodeConfig_def
        emptyConfig_def nodesWithCommonConfig_def guideGroup_def
        maskGroup_def exampleSampler_def newNode_def newWidget_def hidingOn_def initialGlobals_def)
  have r2: "w_type (n_widgets (snd (handleConnectionChange exampleSize 0
       (hidingOn, exampleSamplerUnlinked))) ! 4) = ''RES4LYF_hidden''"
    by (simp add: handleConnectionChange_def connectionGroup_def toggleFound_def isAnyConnected_def
        findWidget_def findInput_def toggleWidget_def Let_def nodeConfigs_def createNodeConfig_def
        emptyConfig_def nodesWithCommonConfig_def guideGroup_def maskGroup_def exampleSamplerUnlinked_def exampleSampler_def newNode_def
        newWidget_def hidingOn_def initialGlobals_def HIDDEN_TAG_def)
  from handleConnectionChange_sets_group [OF example_configs(1) o m l(1) n(1) t f(1),
      where cs = exampleSize and g = hidingOn]
    handleConnectionChange_sets_group [OF exampleSamplerUnlinked_config o m l(2) n(2) t f(2),
      where cs = exampleSize and g = hidingOn]
    s1 s2 example_configs(1) m l n t f k r1 r2
  show ?thesis by (simp add: Let_def)
qed

section \<open>The "hide by default" settings and the overrides\<close>

lemma grows_fields:
  assumes "grows g g'"
  shows "ENABLE_WIDGET_HIDING g' = ENABLE_WIDGET_HIDING g"
    and "DEFAULT_WIDGET_STATES g' = DEFAULT_WIDGET_STATES g"
    and "widgetToggleStates g' = widgetToggleStates g"
  using assms by (simp_all add: grows_def)

lemma decidedAt_grows:
  assumes "decidedAt (g1, n) i w s" "grows g1 g2"
  shows "decidedAt (g2, n) i w s"
  using assms by (auto simp: decidedAt_def grows_fields dest: grows_origProps)

lemma exampleOverride_eval:
  "widgetToggleStates (fst exampleOverride) ''12_extra_options'' = Some False"
  "widgetToggleStates (fst exampleOverride) ''13_extra_options'' = None"
  "ENABLE_WIDGET_HIDING (fst exampleOverride) = True"
  "length (snd exampleOverride) = 2"
  "n_id (snd exampleOverride ! 0) = ''12''"
  "n_id (snd exampleOverride ! 1) = ''13''"
  "n_comfyClass (snd exampleOverride ! 0) = ''ClownSampler''"
  "n_comfyClass (snd exampleOverride ! 1) = ''ClownSampler''"
  "map w_name (n_widgets (snd exampleOverride ! 0)) =
     [''noise_type'', ''alpha'', ''k'', ''latent_guide_weight'', ''guide_mode'', ''extra_options'']"
  "map w_name (n_widgets (snd exampleOverride ! 1)) =
     [''noise_type'', ''alpha'', ''k'', ''latent_guide_weight'', ''guide_mode'', ''extra_options'']"
  "w_type (n_widgets (snd exampleOverride ! 0) ! 5) = ''customtext''"
  "w_type (n_widgets (snd exampleOverride ! 1) ! 5) = ''customtext''"
  by (simp_all add: exampleOverride_def run_def onNode_def Let_def toggleWidget_def
      exampleSampler_def newNode_def newWidget_def hidingOn_def initialGlobals_def)

text \<open>
  Claim C7. When the change handler of a "hide by default" setting runs for a widget
  name, on every node of the graph whose class has an entry in \<^verbatim>\<open>nodeConfigs\<close> and that
  has a widget of that name: if \<^verbatim>\<open>widgetToggleStates\<close> holds an entry for the node and
  the name, the node is left exactly as it was (no call of \<^verbatim>\<open>toggleWidget\<close> reaches it);
  if it holds none, the widget is toggled with the new default. The handler stores the
  new default and leaves the overrides as they are.
\<close>

theorem defaultHideOnChange_respects_overrides:
  assumes "k < length nodes"
    and "nodeConfigs (n_comfyClass (nodes ! k)) \<noteq> None"
    and "findWidget (nodes ! k) widgetName = Some i"
  shows "let s' = defaultHideOnChange cs widgetName v (g, nodes); node = nodes ! k
         in (if widgetToggleStates g (stateKey node widgetName) \<noteq> None
             then snd s' ! k = node
             else w_RES4LYF_hidden (n_widgets (snd s' ! k) ! i) = Some v \<and>
                  (\<exists>e. origProps (fst s') widgetName = Some e \<and>
                       n_widgets (snd s' ! k) ! i =
                         toggled e (ENABLE_WIDGET_HIDING g) (n_widgets node ! i) (\<not> v))) \<and>
            DEFAULT_WIDGET_STATES (fst s') widgetName = Some v \<and>
            widgetToggleStates (fst s') = widgetToggleStates g"
proof -
  let ?g1 = "g \<lparr> DEFAULT_WIDGET_STATES := (DEFAULT_WIDGET_STATES g)(widgetName \<mapsto> v) \<rparr>"
  let ?body = "defaultHideNode cs widgetName v"
  let ?s' = "defaultHideOnChange cs widgetName v (g, nodes)"
  let ?node = "nodes ! k"
  have s': "?s' = forNodes ?body ?g1 nodes" by (simp add: defaultHideOnChange_def)
  have g1: "grows ?g1 (fst ?s')"
    unfolding s' by (rule forNodes_grows) (rule defaultHideNode_stable)
  from forNodes_nth [where body = ?body and g = ?g1, OF defaultHideNode_stable assms(1)]
  obtain gk where gk: "grows ?g1 gk" "snd ?s' ! k = snd (?body (gk, ?node))"
    "grows (fst (?body (gk, ?node))) (fst ?s')"
    unfolding s' by blast
  have ts: "widgetToggleStates gk = widgetToggleStates g"
    and en: "ENABLE_WIDGET_HIDING gk = ENABLE_WIDGET_HIDING g"
    using grows_fields [OF gk(1)] by simp_all
  from assms(3) have i: "i < length (n_widgets ?node)" and nm: "w_name (n_widgets ?node ! i) = widgetName"
    by (simp_all add: findWidget_name)
  have globals: "DEFAULT_WIDGET_STATES (fst ?s') widgetName = Some v \<and>
      widgetToggleStates (fst ?s') = widgetToggleStates g"
    using grows_fields [OF g1] by simp
  show ?thesis
  proof (cases "widgetToggleStates g (stateKey ?node widgetName) = None")
    case False
    then have "?body (gk, ?node) = (gk, ?node)"
      using assms(3) by (auto simp: defaultHideNode_def ts)
    with gk(2) False globals show ?thesis by (simp add: Let_def)
  next
    case True
    then have b: "?body (gk, ?node) = toggleWidget cs gk ?node (Some i) (\<not> v)"
      using assms(2,3) by (auto simp: defaultHideNode_def ts)
    have "decidedAt (toggleWidget cs gk ?node (Some i) (\<not> v)) i (n_widgets ?node ! i) (\<not> v)"
      using decidedAt_toggleWidget_same [OF basedOn_start [OF i], where g1 = gk and cs = cs and s = "\<not> v"]
      by simp
    then have "decidedAt (fst (?body (gk, ?node)), snd ?s' ! k) i (n_widgets ?node ! i) (\<not> v)"
      by (simp add: b gk(2))
    then have "decidedAt (fst ?s', snd ?s' ! k) i (n_widgets ?node ! i) (\<not> v)"
      using gk(3) by (rule decidedAt_grows)
    moreover have "ENABLE_WIDGET_HIDING (fst ?s') = ENABLE_WIDGET_HIDING g"
      using grows_fields(1) [OF g1] by simp
    ultimately show ?thesis using True globals nm
      by (auto simp: Let_def decidedAt_def)
  qed
qed

theorem defaultHideOnChange_respects_overrides_witness:
  "0 < length (snd exampleOverride) \<and> 1 < length (snd exampleOverride) \<and>
   nodeConfigs (n_comfyClass (snd exampleOverride ! 0)) \<noteq> None \<and>
   nodeConfigs (n_comfyClass (snd exampleOverride ! 1)) \<noteq> None \<and>
   findWidget (snd exampleOverride ! 0) ''extra_options'' = Some 5 \<and>
   findWidget (snd exampleOverride ! 1) ''extra_options'' = Some 5 \<and>
   widgetToggleStates (fst exampleOverride) (stateKey (snd exampleOverride ! 0) ''extra_options'')
     = Some False \<and>
   widgetToggleStates (fst exampleOverride) (stateKey (snd exampleOverride ! 1) ''extra_options'')
     = None \<and>
   snd (defaultHideOnChange exampleSize ''extra_options'' True exampleOverride) ! 0
     = snd exampleOverride ! 0 \<and>
   w_type (n_widgets (snd exampleOverride ! 0) ! 5) = ''customtext'' \<and>
   w_RES4LYF_hidden (n_widgets
       (snd (defaultHideOnChange exampleSize ''extra_options'' True exampleOverride) ! 1) ! 5)
     = Some True \<and>
   w_type (n_widgets
       (snd (defaultHideOnChange exampleSize ''extra_options'' True exampleOverride) ! 1) ! 5)
     = ''RES4LYF_hidden''"
proof -
  have l: "0 < length (snd exampleOverride)" "1 < length (snd exampleOverride)"
    using exampleOverride_eval(4) by simp_all
  have c: "nodeConfigs (n_comfyClass (snd exampleOverride ! 0)) \<noteq> None"
      "nodeConfigs (n_comfyClass (snd exampleOverride ! 1)) \<noteq> None"
    unfolding exampleOverride_eval by (simp_all add: nodeConfigs_def)
  have f: "findWidget (snd exampleOverride ! 0) ''extra_options'' = Some 5"
      "findWidget (snd exampleOverride ! 1) ''extra_options'' = Some 5"
    unfolding findWidget_names exampleOverride_eval by simp_all
  have o: "widgetToggleStates (fst exampleOverride)
        (stateKey (snd exampleOverride ! 0) ''extra_options'') = Some False"
      "widgetToggleStates (fst exampleOverride)
        (stateKey (snd exampleOverride ! 1) ''extra_options'') = None"
    unfolding stateKey_def exampleOverride_eval(5,6) using exampleOverride_eval(1,2) by simp_all
  have p: "(fst exampleOverride, snd exampleOverride) = exampleOverride" by simp
  from defaultHideOnChange_respects_overrides [OF l(1) c(1) f(1), where cs = exampleSize
      and v = True and g = "fst exampleOverride"]
    defaultHideOnChange_respects_overrides [OF l(2) c(2) f(2), where cs = exampleSize
      and v = True and g = "fst exampleOverride"]
    l c f o exampleOverride_eval(3,11)
  show ?thesis
    unfolding p Let_def by (auto simp: toggled_def HIDDEN_TAG_def)
qed

section \<open>The hiding switch\<close>



lemma reapply_length [simp]:
  "length (n_widgets (snd (reapply cs st j))) = length (n_widgets (snd st))"
  by (simp add: reapply_def split: option.splits)










section \<open>The hooks the extension installs\<close>

lemma sameHooks_refl [simp]: "sameHooks a a"
  by (simp add: sameHooks_def)

lemma sameHooks_trans: "sameHooks a b \<Longrightarrow> sameHooks b c \<Longrightarrow> sameHooks a c"
  by (simp add: sameHooks_def)

lemma toggleWidget_hooks: "sameHooks node (snd (toggleWidget cs g node wi s))"
proof (cases wi)
  case None
  then show ?thesis by simp
next
  case (Some i)
  show ?thesis
  proof (cases "i < length (n_widgets node)")
    case True
    then show ?thesis unfolding Some by (simp add: toggleWidget_Some Let_def sameHooks_def)
  next
    case False
    then show ?thesis unfolding Some by (simp add: toggleWidget_outside)
  qed
qed

lemma foldl_hooks:
  assumes "\<And>st x. sameHooks (snd st) (snd (f st x))"
  shows "sameHooks (snd st) (snd (foldl f st xs))"
proof (induction xs arbitrary: st)
  case Nil
  show ?case by simp
next
  case (Cons x xs)
  show ?case using sameHooks_trans [OF assms Cons.IH] by simp
qed

lemma toggleTarget_hooks: "sameHooks (snd st) (snd (toggleTarget cs s st nm))"
  by (simp add: toggleTarget_def toggleWidget_hooks)

lemma handleGroup_hooks: "sameHooks (snd st) (snd (handleGroup cs st grp))"
  unfolding handleGroup_def by (rule foldl_hooks) (rule toggleTarget_hooks)

lemma createGenericHandler_hooks: "sameHooks (snd st) (snd (createGenericHandler cs cfg st))"
  unfolding createGenericHandler_def
  by (cases cfg) (simp_all add: foldl_hooks handleGroup_hooks)

lemma applyDefault_hooks: "sameHooks (snd st) (snd (applyDefault cs st nm))"
  by (simp add: applyDefault_def toggleWidget_hooks split: option.splits)

lemma initGroup_hooks: "sameHooks (snd st) (snd (initGroup cs st grp))"
  unfolding initGroup_def toggleFound_eq_fun by (rule foldl_hooks) (rule toggleTarget_hooks)

lemma initOptionalInputs_hooks: "sameHooks (snd st) (snd (initOptionalInputs cs st))"
  by (simp add: initOptionalInputs_def foldl_hooks initGroup_hooks split: option.splits)

lemma setCallback_hooks: "sameHooks node (setCallback cfg node nm)"
  by (simp add: setCallback_def sameHooks_def split: option.splits)

lemma foldl_node_hooks:
  assumes "\<And>n x. sameHooks n (f n x)"
  shows "sameHooks n (foldl f n xs)"
proof (induction xs arbitrary: n)
  case Nil
  show ?case by simp
next
  case (Cons x xs)
  show ?case using sameHooks_trans [OF assms Cons.IH] by simp
qed

lemma setCallbacks_hooks: "sameHooks node (setCallbacks cfg node)"
  unfolding setCallbacks_def
  by (cases cfg) (simp_all add: foldl_node_hooks setCallback_hooks)

text \<open>The hook slots after \<^verbatim>\<open>setupDynamicWidgets\<close>.\<close>

lemma setupDynamicWidgets_hooks:
  "snd (setupDynamicWidgets cs cfg st) =
     (snd (setupDynamicWidgets cs cfg st))
       \<lparr> n_onConnectionsChange := ConnWrapper (n_onConnectionsChange (snd st)) cfg,
         n_getExtraMenuOptions :=
           (if n_RES4LYF_menuWrapped (snd st) then n_getExtraMenuOptions (snd st)
            else MenuWrapper (n_getExtraMenuOptions (snd st)) cfg),
         n_RES4LYF_menuWrapped := True,
         n_onConfigure := n_onConfigure (snd st),
         n_onAfterGraphConfigured := n_onAfterGraphConfigured (snd st) \<rparr>"
proof -
  define st1 where "st1 = foldl (applyDefault cs) st TOGGLEABLE_WIDGETS"
  define st2 where "st2 = createGenericHandler cs cfg st1"
  define node3 where "node3 = setCallbacks cfg (snd st2)"
  define node4 where "node4 = wrapHooks cfg node3"
  have 1: "sameHooks (snd st) (snd st1)"
    unfolding st1_def by (rule foldl_hooks) (rule applyDefault_hooks)
  have 2: "sameHooks (snd st1) (snd st2)" unfolding st2_def by (rule createGenericHandler_hooks)
  have 3: "sameHooks (snd st2) node3" unfolding node3_def by (rule setCallbacks_hooks)
  have h3: "sameHooks (snd st) node3" by (rule sameHooks_trans [OF sameHooks_trans [OF 1 2] 3])
  have 5: "sameHooks node4 (snd (initOptionalInputs cs (fst st2, node4)))"
    using initOptionalInputs_hooks [of "(fst st2, node4)" cs] by simp
  have r: "setupDynamicWidgets cs cfg st = initOptionalInputs cs (fst st2, node4)"
    by (simp add: setupDynamicWidgets_def Let_def st1_def st2_def node3_def node4_def)
  have 4: "n_onConnectionsChange node4 = ConnWrapper (n_onConnectionsChange (snd st)) cfg"
    "n_getExtraMenuOptions node4 =
           (if n_RES4LYF_menuWrapped (snd st) then n_getExtraMenuOptions (snd st)
            else MenuWrapper (n_getExtraMenuOptions (snd st)) cfg)"
    "n_RES4LYF_menuWrapped node4 = True"
    "n_onConfigure node4 = n_onConfigure (snd st)"
    "n_onAfterGraphConfigured node4 = n_onAfterGraphConfigured (snd st)"
    using h3 by (simp_all add: node4_def wrapHooks_def Let_def sameHooks_def)
  show ?thesis
    unfolding r using 5 4 by (simp add: sameHooks_def)
qed

lemma setupDynamicWidgets_conn:
  "n_onConnectionsChange (snd (setupDynamicWidgets cs cfg st))
     = ConnWrapper (n_onConnectionsChange (snd st)) cfg"
  by (subst setupDynamicWidgets_hooks) simp

lemma setupDynamicWidgets_menu:
  "n_getExtraMenuOptions (snd (setupDynamicWidgets cs cfg st))
     = (if n_RES4LYF_menuWrapped (snd st) then n_getExtraMenuOptions (snd st)
        else MenuWrapper (n_getExtraMenuOptions (snd st)) cfg)"
  "n_RES4LYF_menuWrapped (snd (setupDynamicWidgets cs cfg st))"
  by (subst setupDynamicWidgets_hooks, simp)+

lemma setupDynamicWidgets_other_hooks:
  "n_onConfigure (snd (setupDynamicWidgets cs cfg st)) = n_onConfigure (snd st)"
  "n_onAfterGraphConfigured (snd (setupDynamicWidgets cs cfg st)) = n_onAfterGraphConfigured (snd st)"
  by (subst setupDynamicWidgets_hooks, simp)+

text \<open>The wrappers of the connection hook, the menu hook and the configure hook call the
  handler they found first; the menu hook is wrapped once however often the setup runs.\<close>

lemma onConnectionsChange_calls_through:
  "snd (onConnectionsChange cs (ConnWrapper orig cfg) index st)
     = snd (onConnectionsChange cs orig index st) @ [HandleConnectionChange, OnNodeChange]"
  by (cases orig) (simp_all add: Let_def)

lemma onConfigure_calls_through:
  "snd (onConfigure cs (ConfigureWrapper orig cfg) st)
     = snd (onConfigure cs orig st) @ [SetupDynamicWidgets]"
  by (cases orig) (simp_all add: Let_def)

lemma getExtraMenuOptions_calls_through:
  "snd (getExtraMenuOptions g node (MenuWrapper orig cfg) options)
     = snd (getExtraMenuOptions g node orig options) @ [AddMenuOptions]"
  by (cases orig) (simp_all add: Let_def)

lemma setup_twice_menu:
  "n_getExtraMenuOptions (snd (setupDynamicWidgets cs cfg (setupDynamicWidgets cs cfg st)))
     = n_getExtraMenuOptions (snd (setupDynamicWidgets cs cfg st))"
  by (simp add: setupDynamicWidgets_menu)

text \<open>The connection hook is wrapped again by every setup.\<close>

lemma setup_twice_conn:
  "n_onConnectionsChange (snd (setupDynamicWidgets cs cfg (setupDynamicWidgets cs cfg st)))
     = ConnWrapper (ConnWrapper (n_onConnectionsChange (snd st)) cfg) cfg"
  by (simp add: setupDynamicWidgets_conn)

lemma setup_twice_conn_calls:
  "snd (onConnectionsChange cs
          (n_onConnectionsChange (snd (setupDynamicWidgets cs cfg (setupDynamicWidgets cs cfg st))))
          index st')
     = snd (onConnectionsChange cs (n_onConnectionsChange (snd st)) index st') @
       [HandleConnectionChange, OnNodeChange, HandleConnectionChange, OnNodeChange]"
  unfolding setup_twice_conn onConnectionsChange_calls_through by simp

text \<open>\<^verbatim>\<open>nodeCreated\<close> on a node whose class has an entry in \<^verbatim>\<open>nodeConfigs\<close>.\<close>

lemma nodeCreated_hooks:
  assumes "nodeConfigs (n_comfyClass (snd st)) = Some config"
  shows "n_onConfigure (snd (nodeCreated cs st))
           = ConfigureWrapper (n_onConfigure (snd st)) (dependentWidgets config)"
    and "n_onAfterGraphConfigured (snd (nodeCreated cs st)) = GraphHandler (dependentWidgets config)"
    and "n_onConnectionsChange (snd (nodeCreated cs st))
           = ConnWrapper (n_onConnectionsChange (snd st)) (dependentWidgets config)"
proof -
  let ?d = "dependentWidgets config"
  let ?st1 = "setupDynamicWidgets cs ?d st"
  let ?st2 = "createGenericHandler cs ?d ?st1"
  have h: "sameHooks (snd ?st1) (snd ?st2)" by (rule createGenericHandler_hooks)
  have r: "nodeCreated cs st =
     (fst ?st2, (snd ?st2) \<lparr> n_onConfigure := ConfigureWrapper (n_onConfigure (snd ?st2)) ?d,
                             n_onAfterGraphConfigured := GraphHandler ?d \<rparr>)"
    using assms by (simp add: nodeCreated_def Let_def)
  show "n_onConfigure (snd (nodeCreated cs st)) = ConfigureWrapper (n_onConfigure (snd st)) ?d"
    using h unfolding r by (simp add: sameHooks_def setupDynamicWidgets_other_hooks)
  show "n_onAfterGraphConfigured (snd (nodeCreated cs st)) = GraphHandler ?d"
    unfolding r by simp
  show "n_onConnectionsChange (snd (nodeCreated cs st)) = ConnWrapper (n_onConnectionsChange (snd st)) ?d"
    using h unfolding r by (simp add: sameHooks_def setupDynamicWidgets_conn)
qed


lemma exampleHooked_config:
  "nodeConfigs (n_comfyClass (snd (initialGlobals, exampleHooked))) =
     Some \<lparr> optionalInputWidgets = Some [guideGroup, maskGroup],
            dependentWidgets = Some commonDependentWidgets \<rparr>"
  using example_configs(1) by (simp add: exampleHooked_def)

lemma exampleCreated_hooks:
  "n_onConfigure (snd exampleCreated) = ConfigureWrapper (ConfigureHost 3) (Some commonDependentWidgets)"
  "n_onAfterGraphConfigured (snd exampleCreated) = GraphHandler (Some commonDependentWidgets)"
  "n_onConnectionsChange (snd exampleCreated) = ConnWrapper (ConnHost 1) (Some commonDependentWidgets)"
  unfolding exampleCreated_def nodeCreated_hooks [OF exampleHooked_config]
  by (simp_all add: exampleHooked_def)

lemma exampleLoaded_hooks:
  "n_onConnectionsChange (snd exampleLoaded) =
     ConnWrapper (ConnWrapper (ConnHost 1) (Some commonDependentWidgets)) (Some commonDependentWidgets)"
  unfolding exampleLoaded_def exampleCreated_hooks
  by (simp add: Let_def setupDynamicWidgets_conn exampleCreated_hooks)

text \<open>
  Claim C8 says that every hook the extension installs calls the handler that was in
  the slot before, and that running the setup twice does not make a hook run the added
  logic twice per event. The source does both for the menu hook only. On a sampler that
  already has handlers in its slots: after \<^verbatim>\<open>nodeCreated\<close> the hook
  \<^verbatim>\<open>onAfterGraphConfigured\<close> no longer calls the handler that was there (line 503 assigns
  the slot without reading it); and once the node has been configured, which runs
  \<^verbatim>\<open>setupDynamicWidgets\<close> a second time, one connection event runs
  \<^verbatim>\<open>handleConnectionChange\<close> and the refresh handler twice (lines 299 to 306 wrap the slot
  on every setup; only the menu hook is guarded by \<^verbatim>\<open>_RES4LYF_menuWrapped\<close>).
\<close>

theorem hooks_replaced_and_wrapped_twice:
  "n_onAfterGraphConfigured exampleHooked = GraphHost 4 \<and>
   snd (onAfterGraphConfigured exampleSize (n_onAfterGraphConfigured (snd exampleCreated))
          exampleCreated)
     = [RefreshOnNextFrame] \<and>
   n_onConnectionsChange exampleHooked = ConnHost 1 \<and>
   snd (onConnectionsChange exampleSize (n_onConnectionsChange (snd exampleCreated)) 0
          exampleCreated)
     = [HostHandler 1, HandleConnectionChange, OnNodeChange] \<and>
   snd (onConnectionsChange exampleSize (n_onConnectionsChange (snd exampleLoaded)) 0
          exampleLoaded)
     = [HostHandler 1, HandleConnectionChange, OnNodeChange,
        HandleConnectionChange, OnNodeChange]"
  unfolding exampleCreated_hooks exampleLoaded_hooks onConnectionsChange_calls_through
  by (simp add: exampleHooked_def)

end
